theory Spec2Isabelle
  imports Complex_Main "HOL-Library.Word" "HOL-Library.Sublist" "HOL-Library.AList"
begin

section \<open>Strings and numbers of the source language\<close>

text \<open>
  A TypeScript string is a sequence of UTF-16 code units, and \<open>length\<close> counts code
  units. The numbers of the source are doubles. Counters are integers here, and what the
  source divides, rounds or scales is computed in the reals, on the inputs on which the
  doubles hold every intermediate value without rounding.
\<close>

type_synonym jsstring = "16 word list"

definition js :: "string \<Rightarrow> jsstring" where
  \<comment> \<open>An ASCII literal as a string of code units.\<close>
  "js s = map (\<lambda>c. of_char c) s"

definition newline :: "16 word" where
  "newline = 0x0A"

fun split_on :: "'a \<Rightarrow> 'a list \<Rightarrow> 'a list list" where
  \<comment> \<open>\<open>s.split(sep)\<close> for a separator of one code unit: the empty string gives one
      empty piece.\<close>
  "split_on sep [] = [[]]"
| "split_on sep (c # cs) =
     (if c = sep then [] # split_on sep cs
      else (case split_on sep cs of
              [] \<Rightarrow> [[c]]
            | p # ps \<Rightarrow> (c # p) # ps))"


section \<open>Height estimation\<close>

subsection \<open>Server: \<open>ContextStore.estimateHeight\<close>\<close>

definition ContextStore_estimateHeight :: "jsstring \<Rightarrow> int" where
  "ContextStore_estimateHeight content =
     (let lineCount = int (length (split_on newline content));
          avgCharsPerLine = 80;
          estimatedLines = max lineCount \<lceil>real (length content) / avgCharsPerLine\<rceil>
      in max 60 (estimatedLines * 24 + 40))"

subsection \<open>Client worker: \<open>HeightCalculator.estimateHeight\<close>\<close>







subsection \<open>The heuristic as the specification words it\<close>


section \<open>Virtual window\<close>

text \<open>
  The range of blocks that the viewer component renders, and what it is measured
  against: the blocks stacked one under the other with their heights.
\<close>

definition ITEM_HEIGHT_ESTIMATE :: real where
  "ITEM_HEIGHT_ESTIMATE = 100"

definition OVERSCAN :: int where
  "OVERSCAN = 5"

definition startIndex :: "real \<Rightarrow> int" where
  "startIndex scrollTop = max 0 (\<lfloor>scrollTop / ITEM_HEIGHT_ESTIMATE\<rfloor> - OVERSCAN)"

definition endIndex :: "nat \<Rightarrow> real \<Rightarrow> real \<Rightarrow> int" where
  \<comment> \<open>The first argument is \<open>blocks.length\<close>.\<close>
  "endIndex n scrollTop viewportHeight =
     min (int n) (\<lceil>(scrollTop + viewportHeight) / ITEM_HEIGHT_ESTIMATE\<rceil> + OVERSCAN)"

definition in_range :: "nat \<Rightarrow> real \<Rightarrow> real \<Rightarrow> nat \<Rightarrow> bool" where
  \<comment> \<open>Block \<open>i\<close> is in \<open>blocks.slice(startIndex, endIndex)\<close>.\<close>
  "in_range n scrollTop viewportHeight i =
     (startIndex scrollTop \<le> int i \<and> int i < endIndex n scrollTop viewportHeight)"

definition block_top :: "real list \<Rightarrow> nat \<Rightarrow> real" where
  \<comment> \<open>Where block \<open>i\<close> starts when the blocks are stacked with the given heights.\<close>
  "block_top heights i = sum_list (take i heights)"

definition intersects_viewport :: "real list \<Rightarrow> real \<Rightarrow> real \<Rightarrow> nat \<Rightarrow> bool" where
  "intersects_viewport heights scrollTop viewportHeight i =
     (i < length heights \<and>
      block_top heights i < scrollTop + viewportHeight \<and>
      scrollTop < block_top heights i + heights ! i)"

section \<open>Height estimation: results\<close>








section \<open>Virtual window: results\<close>

lemma block_top_uniform:
  "i \<le> n \<Longrightarrow> block_top (replicate n h) i = real i * h"
  by (simp add: block_top_def sum_list_replicate min_def)

text \<open>
  C4, as the code has it. The window never reads the per-block heights: it assumes 100
  pixels for every block and an overscan of 5. When every block is 100 pixels high the
  range covers every block that intersects the viewport; for five such blocks, viewport
  250 and scroll 0 the range is \<open>[0, 5)\<close>, which covers the indices 0 to 3.
\<close>

theorem virtual_window_covers_uniform:
  "(intersects_viewport (replicate n 100) scrollTop viewportHeight i
      \<longrightarrow> in_range n scrollTop viewportHeight i)
   \<and> startIndex 0 = 0 \<and> endIndex 5 0 250 = 5
   \<and> list_all (in_range 5 0 250) [0, 1, 2, 3]"
proof -
  have "in_range n scrollTop viewportHeight i"
    if h: "intersects_viewport (replicate n 100) scrollTop viewportHeight i"
  proof -
    from h have i: "i < n" by (simp add: intersects_viewport_def)
    then have top: "block_top (replicate n 100) i = real i * 100"
      by (simp add: block_top_uniform)
    from h i top have lo: "real i * 100 < scrollTop + viewportHeight"
      and hi: "scrollTop < real i * 100 + 100"
      by (simp_all add: intersects_viewport_def)
    from hi have "scrollTop / 100 < real i + 1" by simp
    then have "\<lfloor>scrollTop / 100\<rfloor> \<le> int i" by linarith
    then have s: "startIndex scrollTop \<le> int i"
      by (simp add: startIndex_def ITEM_HEIGHT_ESTIMATE_def OVERSCAN_def)
    from lo have "real i < (scrollTop + viewportHeight) / 100" by simp
    then have "int i < \<lceil>(scrollTop + viewportHeight) / 100\<rceil>" by linarith
    with i have e: "int i < endIndex n scrollTop viewportHeight"
      by (simp add: endIndex_def ITEM_HEIGHT_ESTIMATE_def OVERSCAN_def)
    from s e show ?thesis by (simp add: in_range_def)
  qed
  moreover have se: "startIndex 0 = 0" "endIndex 5 0 250 = 5"
    by (simp_all add: startIndex_def endIndex_def ITEM_HEIGHT_ESTIMATE_def OVERSCAN_def)
  moreover from se have "list_all (in_range 5 0 250) [0, 1, 2, 3]"
    by (simp add: in_range_def)
  ultimately show ?thesis by blast
qed

theorem virtual_window_covers_uniform_witness:
  "intersects_viewport (replicate 5 100) 0 250 2 \<and> in_range 5 0 250 2"
proof -
  have h: "intersects_viewport (replicate 5 100) 0 250 2"
    by (simp add: intersects_viewport_def block_top_def eval_nat_numeral)
  with virtual_window_covers_uniform [of 5 0 250 2] show ?thesis by blast
qed

text \<open>
  C4 as stated fails when the blocks are lower than the assumed 100 pixels: of twenty
  blocks of 60 pixels under a viewport of 1000 at scroll 0, block 16 starts at 960 and is
  in the viewport, and the range ends at 15.
\<close>

theorem virtual_window_counterexample:
  "intersects_viewport (replicate 20 60) 0 1000 16 \<and> \<not> in_range 20 0 1000 16"
proof -
  have "block_top (replicate 20 60) 16 = 960"
    by (simp add: block_top_uniform)
  then have "intersects_viewport (replicate 20 60) 0 1000 16"
    by (simp add: intersects_viewport_def)
  moreover have "endIndex 20 0 1000 = 15"
    by (simp add: endIndex_def ITEM_HEIGHT_ESTIMATE_def OVERSCAN_def)
  then have "\<not> in_range 20 0 1000 16"
    by (simp add: in_range_def)
  ultimately show ?thesis by blast
qed

section \<open>Search index\<close>

text \<open>The class \<open>SearchIndex\<close> of the parser worker of the client.\<close>

subsection \<open>Built-in string operations\<close>

definition is_whitespace :: "16 word \<Rightarrow> bool" where
  \<comment> \<open>The WhiteSpace and LineTerminator code units, which \<open>trim\<close> strips.\<close>
  "is_whitespace c =
     (c \<in> set [0x09, 0x0A, 0x0B, 0x0C, 0x0D, 0x20, 0xA0, 0x1680, 0x2028, 0x2029,
                  0x202F, 0x205F, 0x3000, 0xFEFF]
      \<or> (0x2000 \<le> c \<and> c \<le> 0x200A))"

definition trim :: "jsstring \<Rightarrow> jsstring" where
  "trim s = rev (dropWhile is_whitespace (rev (dropWhile is_whitespace s)))"

definition lower_unit :: "16 word \<Rightarrow> jsstring" where
  \<comment> \<open>Unicode lower-case mapping of one code unit, on U+0000 to U+00FF and on U+0130
      (LATIN CAPITAL LETTER I WITH DOT ABOVE, whose lower case is the two code units
      U+0069 U+0307). Other code units are left as they are here, also the capital
      letters beyond U+00FF that the built-in folds: the strings that are evaluated
      below lie in the range covered.\<close>
  "lower_unit c =
     (if 0x41 \<le> c \<and> c \<le> 0x5A then [c + 0x20]
      else if 0xC0 \<le> c \<and> c \<le> 0xDE \<and> c \<noteq> 0xD7 then [c + 0x20]
      else if c = 0x130 then [0x69, 0x307]
      else [c])"

definition toLowerCase :: "jsstring \<Rightarrow> jsstring" where
  "toLowerCase s = concat (map lower_unit s)"

definition occurs_at :: "'a list \<Rightarrow> 'a list \<Rightarrow> nat \<Rightarrow> bool" where
  \<comment> \<open>The code units of \<open>s\<close> from index \<open>i\<close> on start with \<open>q\<close>.\<close>
  "occurs_at s q i = (take (length q) (drop i s) = q)"

definition indexOf :: "'a list \<Rightarrow> 'a list \<Rightarrow> nat \<Rightarrow> nat option" where
  \<comment> \<open>\<open>s.indexOf(searchString, position)\<close>; \<open>None\<close> stands for \<open>-1\<close>.\<close>
  "indexOf s searchString position =
     (let len = length s;
          start = min position len;
          searchLen = length searchString
      in if len < searchLen then None
         else List.find (occurs_at s searchString) [start..<Suc (len - searchLen)])"

definition substring :: "'a list \<Rightarrow> nat \<Rightarrow> nat \<Rightarrow> 'a list" where
  \<comment> \<open>\<open>s.substring(a, b)\<close>: both ends are clamped to the length, and swapped when
      \<open>a > b\<close>.\<close>
  "substring s a b =
     (let finalStart = min a (length s);
          finalEnd = min b (length s);
          from = min finalStart finalEnd;
          to = max finalStart finalEnd
      in take (to - from) (drop from s))"

definition is_word_char :: "16 word \<Rightarrow> bool" where
  \<comment> \<open>The class \<open>\w\<close>.\<close>
  "is_word_char c =
     ((0x30 \<le> c \<and> c \<le> 0x39) \<or> (0x41 \<le> c \<and> c \<le> 0x5A) \<or> c = 0x5F
      \<or> (0x61 \<le> c \<and> c \<le> 0x7A))"

subsection \<open>The index\<close>

record IndexEntry =
  entry_blockId :: jsstring
  entry_positions :: "nat list"

record SearchMatch =
  match_blockId :: jsstring
  match_startIndex :: nat
  match_endIndex :: nat
  match_text :: jsstring

text \<open>A \<open>Map\<close> iterates in insertion order: an association list with distinct keys.\<close>

record SearchIndex =
  index :: "(jsstring \<times> IndexEntry list) list"
  blockContents :: "(jsstring \<times> jsstring) list"

definition SearchIndex_new :: SearchIndex where
  "SearchIndex_new = \<lparr>index = [], blockContents = []\<rparr>"

fun tokenize_from :: "nat \<Rightarrow> (jsstring \<times> nat) option \<Rightarrow> jsstring \<Rightarrow> (jsstring \<times> nat) list" where
  \<comment> \<open>The matches of \<open>/\b\w+\b/g\<close>, the maximal runs of word characters, each with the
      index where it starts. The arguments are the index of the next code unit and the
      run being read.\<close>
  "tokenize_from i cur [] = (case cur of None \<Rightarrow> [] | Some wp \<Rightarrow> [wp])"
| "tokenize_from i cur (c # cs) =
     (if is_word_char c
      then tokenize_from (Suc i)
             (Some (case cur of None \<Rightarrow> ([c], i) | Some (w, p) \<Rightarrow> (w @ [c], p))) cs
      else (case cur of None \<Rightarrow> [] | Some wp \<Rightarrow> [wp]) @ tokenize_from (Suc i) None cs)"

definition tokenize :: "jsstring \<Rightarrow> (jsstring \<times> nat) list" where
  "tokenize text = tokenize_from 0 None text"

definition removeBlock :: "jsstring \<Rightarrow> SearchIndex \<Rightarrow> SearchIndex" where
  "removeBlock blockId si =
     \<lparr>index =
        filter (\<lambda>(word, entries). entries \<noteq> [])
          (map (\<lambda>(word, entries). (word, filter (\<lambda>e. entry_blockId e \<noteq> blockId) entries))
             (index si)),
      blockContents = AList.delete blockId (blockContents si)\<rparr>"

fun push_position :: "jsstring \<Rightarrow> nat \<Rightarrow> IndexEntry list \<Rightarrow> IndexEntry list" where
  \<comment> \<open>\<open>existingEntry.positions.push(position)\<close> on the first entry of the block.\<close>
  "push_position blockId position [] = []"
| "push_position blockId position (e # es) =
     (if entry_blockId e = blockId
      then e\<lparr>entry_positions := entry_positions e @ [position]\<rparr> # es
      else e # push_position blockId position es)"

definition add_posting ::
  "jsstring \<Rightarrow> (jsstring \<times> IndexEntry list) list \<Rightarrow> jsstring \<times> nat
     \<Rightarrow> (jsstring \<times> IndexEntry list) list" where
  \<comment> \<open>One round of the loop of \<open>indexBlock\<close> over the words.\<close>
  "add_posting blockId idx wp =
     (case wp of (word, position) \<Rightarrow>
        (let entries = (case map_of idx word of None \<Rightarrow> [] | Some es \<Rightarrow> es)
         in case List.find (\<lambda>e. entry_blockId e = blockId) entries of
              Some existingEntry \<Rightarrow> AList.update word (push_position blockId position entries) idx
            | None \<Rightarrow>
                AList.update word
                  (entries @ [\<lparr>entry_blockId = blockId, entry_positions = [position]\<rparr>]) idx))"

definition indexBlock :: "jsstring \<Rightarrow> jsstring \<Rightarrow> SearchIndex \<Rightarrow> SearchIndex" where
  "indexBlock blockId content si =
     (let si1 = removeBlock blockId si;
          si2 = si1\<lparr>blockContents := AList.update blockId content (blockContents si1)\<rparr>;
          normalizedContent = toLowerCase content;
          words = tokenize normalizedContent
      in si2\<lparr>index := foldl (add_posting blockId) (index si2) words\<rparr>)"

definition clear_index :: "SearchIndex \<Rightarrow> SearchIndex" where
  \<comment> \<open>\<open>SearchIndex.clear\<close>.\<close>
  "clear_index si = \<lparr>index = [], blockContents = []\<rparr>"


lemma find_upt_Some:
  assumes "List.find P [a..<b] = Some i"
  shows "a \<le> i" and "i < b" and "P i" and "\<And>j. a \<le> j \<Longrightarrow> j < i \<Longrightarrow> \<not> P j"
proof -
  from assms obtain k where k: "k < length [a..<b]" "P ([a..<b] ! k)" "i = [a..<b] ! k"
    and first: "\<forall>j<k. \<not> P ([a..<b] ! j)"
    unfolding find_Some_iff by blast
  from k have ik: "i = a + k" and kb: "a + k < b" by auto
  show "a \<le> i" using ik by simp
  show "i < b" using ik kb by simp
  show "P i" using k by simp
  show "\<not> P j" if "a \<le> j" "j < i" for j
  proof -
    from that ik have "j - a < k" by simp
    with first have "\<not> P ([a..<b] ! (j - a))" by blast
    moreover from that ik kb have "[a..<b] ! (j - a) = j" by simp
    ultimately show ?thesis by simp
  qed
qed

lemma find_upt_None:
  "List.find P [a..<b] = None \<Longrightarrow> a \<le> j \<Longrightarrow> j < b \<Longrightarrow> \<not> P j"
  by (simp add: find_None_iff)

lemma indexOf_Some:
  assumes "indexOf s q k = Some i" and "k \<le> length s"
  shows "k \<le> i" and "i + length q \<le> length s" and "occurs_at s q i"
    and "\<And>j. k \<le> j \<Longrightarrow> j < i \<Longrightarrow> \<not> occurs_at s q j"
proof -
  from assms have le: "length q \<le> length s"
    and f: "List.find (occurs_at s q) [k..<Suc (length s - length q)] = Some i"
    by (simp_all add: indexOf_def Let_def min_def split: if_splits)
  show "k \<le> i" by (rule find_upt_Some(1) [OF f])
  from find_upt_Some(2) [OF f] le show "i + length q \<le> length s" by simp
  show "occurs_at s q i" by (rule find_upt_Some(3) [OF f])
  show "\<not> occurs_at s q j" if "k \<le> j" "j < i" for j
    using find_upt_Some(4) [OF f that] .
qed

lemma occurs_at_bound:
  assumes "occurs_at s q j" and "j < length s"
  shows "j + length q \<le> length s"
proof -
  from assms(1) have "length (take (length q) (drop j s)) = length q"
    by (simp add: occurs_at_def)
  with assms(2) show ?thesis by simp
qed

lemma indexOf_None:
  assumes "indexOf s q k = None" and "k \<le> j" and "j < length s"
  shows "\<not> occurs_at s q j"
proof
  assume o: "occurs_at s q j"
  from occurs_at_bound [OF o assms(3)] have b: "j + length q \<le> length s" .
  then have le: "\<not> length s < length q" by simp
  from assms(2,3) have "min k (length s) = k" by simp
  with assms(1) le have f: "List.find (occurs_at s q) [k..<Suc (length s - length q)] = None"
    by (simp add: indexOf_def Let_def del: upt_Suc)
  from b have jb: "j < Suc (length s - length q)" by arith
  from find_upt_None [OF f assms(2) jb] o show False by contradiction
qed

function scan :: "jsstring \<Rightarrow> jsstring \<Rightarrow> jsstring \<Rightarrow> nat \<Rightarrow> SearchMatch list" where
  \<comment> \<open>The \<open>while\<close> loop of \<open>search\<close> on one block, from \<open>searchStart\<close> on.\<close>
  "scan blockId content query searchStart =
     (if searchStart < length (toLowerCase content)
      then (case indexOf (toLowerCase content) (toLowerCase query) searchStart of
              None \<Rightarrow> []
            | Some found \<Rightarrow>
                \<lparr>match_blockId = blockId,
                 match_startIndex = found,
                 match_endIndex = found + length query,
                 match_text = substring content found (found + length query)\<rparr>
                # scan blockId content query (found + 1))
      else [])"
  by pat_completeness auto

termination
proof (relation "measure (\<lambda>(blockId, content, query, searchStart).
                    length (toLowerCase content) - searchStart)")
  show "wf (measure (\<lambda>(blockId, content, query, searchStart).
                    length (toLowerCase content) - searchStart))"
    by simp
next
  fix blockId content query :: jsstring and searchStart x2 :: nat
  assume lt: "searchStart < length (toLowerCase content)"
    and ix: "indexOf (toLowerCase content) (toLowerCase query) searchStart = Some x2"
  from lt ix have "searchStart \<le> x2"
    by (simp add: indexOf_Some(1))
  with lt show "((blockId, content, query, x2 + 1), (blockId, content, query, searchStart))
      \<in> measure (\<lambda>(blockId, content, query, searchStart).
                    length (toLowerCase content) - searchStart)"
    by simp
qed

declare scan.simps [simp del]

definition search :: "SearchIndex \<Rightarrow> jsstring \<Rightarrow> SearchMatch list" where
  "search si query =
     (if trim query = [] then []
      else concat (map (\<lambda>(blockId, content). scan blockId content query 0)
                     (blockContents si)))"


definition match_at :: "jsstring \<Rightarrow> jsstring \<Rightarrow> jsstring \<Rightarrow> nat \<Rightarrow> SearchMatch" where
  \<comment> \<open>The match that \<open>search\<close> reports for an occurrence at index \<open>i\<close>.\<close>
  "match_at blockId content query i =
     \<lparr>match_blockId = blockId,
      match_startIndex = i,
      match_endIndex = i + length query,
      match_text = substring content i (i + length query)\<rparr>"

definition occurrences :: "jsstring \<Rightarrow> jsstring \<Rightarrow> nat \<Rightarrow> nat list" where
  \<comment> \<open>Every index from \<open>k\<close> on, in ascending order, at which the lower-cased query
      occurs in the lower-cased content.\<close>
  "occurrences content query k =
     filter (occurs_at (toLowerCase content) (toLowerCase query))
       [k..<length (toLowerCase content)]"

lemma filter_upt_first:
  assumes "k \<le> i" "i < n" "P i" "\<And>j. k \<le> j \<Longrightarrow> j < i \<Longrightarrow> \<not> P j"
  shows "filter P [k..<n] = i # filter P [Suc i..<n]"
proof -
  from assms(1,2) have "[k..<i + (n - i)] = [k..<i] @ [i..<i + (n - i)]"
    by (intro upt_add_eq_append) simp
  with assms(2) have "[k..<n] = [k..<i] @ i # [Suc i..<n]"
    by (simp add: upt_conv_Cons)
  moreover have "filter P [k..<i] = []"
    using assms(4) by (simp add: filter_empty_conv)
  ultimately show ?thesis using assms(3) by simp
qed

lemma scan_occurrences:
  "scan blockId content query k = map (match_at blockId content query) (occurrences content query k)"
proof (induction blockId content query k rule: scan.induct)
  case (1 blockId content query searchStart)
  let ?s = "toLowerCase content" and ?q = "toLowerCase query"
  show ?case
  proof (cases "searchStart < length ?s")
    case False
    then show ?thesis by (simp add: occurrences_def scan.simps)
  next
    case lt: True
    show ?thesis
    proof (cases "indexOf ?s ?q searchStart")
      case None
      then have "filter (occurs_at ?s ?q) [searchStart..<length ?s] = []"
        by (auto simp: filter_empty_conv dest: indexOf_None)
      with lt None show ?thesis by (simp add: occurrences_def scan.simps)
    next
      case (Some i)
      from lt have le: "searchStart \<le> length ?s" by simp
      note io = indexOf_Some [OF Some le]
      have i_lt: "i < length ?s"
      proof (cases "length ?q = 0")
        case True
        then have "occurs_at ?s ?q searchStart" by (simp add: occurs_at_def)
        with io(4) [of searchStart] io(1) have "i = searchStart"
          by (cases "searchStart < i") auto
        with lt show ?thesis by simp
      next
        case False
        then have "0 < length ?q" by simp
        with io(2) show ?thesis by linarith
      qed
      have "occurrences content query searchStart = i # occurrences content query (Suc i)"
        unfolding occurrences_def
        using io(1) i_lt io(3) io(4)
        by (rule filter_upt_first [where P = "occurs_at ?s ?q"])
      moreover from "1.IH" [OF lt Some]
      have "scan blockId content query (i + 1) =
              map (match_at blockId content query) (occurrences content query (i + 1))" .
      ultimately show ?thesis using lt Some
        by (simp add: match_at_def scan.simps [of blockId content query searchStart])
    qed
  qed
qed


lemma search_occurrences:
  "search si query =
     (if trim query = [] then []
      else concat (map (\<lambda>(blockId, content).
                          map (match_at blockId content query) (occurrences content query 0))
                     (blockContents si)))"
  by (simp add: search_def scan_occurrences)

lemma toLowerCase_ascii_examples:
  "toLowerCase (js ''aabaa'') = js ''aabaa''" "toLowerCase (js ''aa'') = js ''aa''"
  by (simp_all add: toLowerCase_def lower_unit_def js_def)

text \<open>
  C7. On the content \<open>aabaa\<close> the query \<open>aa\<close> has exactly the two matches \<open>[0,2)\<close> and
  \<open>[3,5)\<close>. In general, because the cursor moves one code unit past each hit, the loop
  reports every index at which the lower-cased query occurs in the lower-cased content,
  in ascending order, whether or not the occurrences are adjacent or overlap.
\<close>

theorem search_reports_every_occurrence:
  "search (indexBlock blockId (js ''aabaa'') SearchIndex_new) (js ''aa'') =
     [\<lparr>match_blockId = blockId, match_startIndex = 0, match_endIndex = 2,
       match_text = js ''aa''\<rparr>,
      \<lparr>match_blockId = blockId, match_startIndex = 3, match_endIndex = 5,
       match_text = js ''aa''\<rparr>]
   \<and> search si query =
     (if trim query = [] then []
      else concat (map (\<lambda>(b, content).
                          map (match_at b content query) (occurrences content query 0))
                     (blockContents si)))"
proof
  have bc: "blockContents (indexBlock blockId (js ''aabaa'') SearchIndex_new)
              = [(blockId, js ''aabaa'')]"
    by (simp add: indexBlock_def removeBlock_def SearchIndex_new_def Let_def)
  have tr: "trim (js ''aa'') \<noteq> []"
    by (simp add: trim_def js_def is_whitespace_def)
  have oc: "occurrences (js ''aabaa'') (js ''aa'') 0 = [0, 3]"
    unfolding occurrences_def toLowerCase_ascii_examples
    by (simp add: occurs_at_def js_def upt_rec_numeral)
  show "search (indexBlock blockId (js ''aabaa'') SearchIndex_new) (js ''aa'') =
     [\<lparr>match_blockId = blockId, match_startIndex = 0, match_endIndex = 2,
       match_text = js ''aa''\<rparr>,
      \<lparr>match_blockId = blockId, match_startIndex = 3, match_endIndex = 5,
       match_text = js ''aa''\<rparr>]"
    by (simp add: search_occurrences bc tr oc match_at_def substring_def) (simp add: js_def)
next
  show "search si query =
     (if trim query = [] then []
      else concat (map (\<lambda>(b, content).
                          map (match_at b content query) (occurrences content query 0))
                     (blockContents si)))"
    by (rule search_occurrences)
qed

text \<open>
  C10 at a failing input. The code finds the index in the lower-cased content and uses it
  in the original content. Lower-casing U+0130 gives two code units, so on the content
  U+0130 \<open>x\<close> (two code units) the query \<open>x\<close> is found at index 2 of the lower-cased
  content: the match has end index 3, beyond the retained content, and an empty text.
\<close>

theorem search_offsets_past_content:
  "search (indexBlock blockId [0x130, 0x78] SearchIndex_new) [0x78] =
     [\<lparr>match_blockId = blockId, match_startIndex = 2, match_endIndex = 3,
       match_text = []\<rparr>]
   \<and> map_of (blockContents (indexBlock blockId [0x130, 0x78] SearchIndex_new)) blockId
       = Some [0x130, 0x78]"
proof -
  have bc: "blockContents (indexBlock blockId [0x130, 0x78] SearchIndex_new)
              = [(blockId, [0x130, 0x78])]"
    by (simp add: indexBlock_def removeBlock_def SearchIndex_new_def Let_def)
  have tr: "trim [0x78] \<noteq> []"
    by (simp add: trim_def is_whitespace_def)
  have lc: "toLowerCase [0x130, 0x78] = [0x69, 0x307, 0x78]" "toLowerCase [0x78] = [0x78]"
    by (simp_all add: toLowerCase_def lower_unit_def)
  have oc: "occurrences [0x130, 0x78] [0x78] 0 = [2]"
    by (simp add: occurrences_def occurs_at_def lc upt_rec_numeral)
  show ?thesis
    by (simp add: search_occurrences bc tr oc match_at_def substring_def)
qed

section \<open>Context store\<close>

text \<open>The class \<open>ContextStore\<close> of \<open>server/src/services/context-store.ts\<close>.\<close>

datatype ContentType =
  SYSTEM | TOOL_DEFINITION | USER | ASSISTANT_THINKING | ASSISTANT_TEXT | TOOL_USE
  | TOOL_RESULT | ERROR

datatype meta_key = Model | ToolName | ToolId | InputTokens | OutputTokens | StopReason | MessageId

datatype meta_value = Undefined | Str jsstring | Num int

text \<open>
  A metadata object by its own properties: the spread \<open>{ ...a, ...b }\<close> is \<open>a ++ b\<close>, and
  a property that is present with the value \<open>undefined\<close> overrides like any other.
\<close>

type_synonym BlockMetadata = "meta_key \<rightharpoonup> meta_value"

record ContextBlock =
  block_id :: jsstring
  block_type :: ContentType
  block_content :: jsstring
  block_timestamp :: jsstring
  block_metadata :: "BlockMetadata option"
  isStreaming :: bool
  estimatedHeight :: int

text \<open>A tool definition; its input schema, a JSON object, is kept as text.\<close>

record ToolDefinition =
  tool_name :: jsstring
  tool_description :: jsstring
  tool_input_schema :: jsstring

text \<open>
  The store mutates objects that it shares with its callers, so blocks and block arrays
  live at addresses: \<open>objects\<close> holds every block object ever created and \<open>arrays\<close> every
  block array, each array being the addresses of its elements. A new object or array
  takes the next address. The context object itself is private to the store; what
  \<open>getContext\<close> hands out is a new object with the same fields, so with the same array.
  The values of \<open>uuidv4()\<close> and of \<open>new Date().toISOString()\<close> are arguments of each
  operation; where a method reads the clock more than once (for the timestamp of a block
  and for \<open>updatedAt\<close>), the readings of that call are one instant.
\<close>

text \<open>
  The system prompt is declared a string, and nothing checks it at run time: the chat
  route passes on whatever truthy value the body of the request holds. So a prompt is a
  string or \<open>OtherValue\<close>: a truthy value of another type of JSON (a number other than
  0, \<open>true\<close>, an array or an object). On such a value \<open>content.split\<close> is not a
  function, and the call of it in \<open>estimateHeight\<close> throws a \<open>TypeError\<close>.
\<close>

datatype jsvalue = StringValue jsstring | OtherValue

datatype exn = TypeError

record ConversationContext =
  ctx_id :: jsstring
  createdAt :: jsstring
  updatedAt :: jsstring
  systemPrompt :: "jsvalue option"
  tools :: "ToolDefinition list"
  blocks :: nat
  totalInputTokens :: int
  totalOutputTokens :: int

record ContextStore =
  store_context :: ConversationContext
  objects :: "ContextBlock list"
  arrays :: "nat list list"

definition createEmptyContext ::
  "jsstring \<Rightarrow> jsstring \<Rightarrow> nat list list \<Rightarrow> ConversationContext \<times> nat list list" where
  "createEmptyContext uuid now arrs =
     (\<lparr>ctx_id = uuid, createdAt = now, updatedAt = now, systemPrompt = None, tools = [],
       blocks = length arrs, totalInputTokens = 0, totalOutputTokens = 0\<rparr>,
      arrs @ [[]])"

definition ContextStore_new :: "jsstring \<Rightarrow> jsstring \<Rightarrow> ContextStore" where
  \<comment> \<open>The constructor.\<close>
  "ContextStore_new uuid now =
     (case createEmptyContext uuid now [] of
        (ctx, arrs) \<Rightarrow> \<lparr>store_context = ctx, objects = [], arrays = arrs\<rparr>)"

definition getContext :: "ContextStore \<Rightarrow> ConversationContext" where
  \<comment> \<open>\<open>{ ...this.context }\<close>: the fields are copied, the array is not.\<close>
  "getContext s = store_context s"

definition context_blocks :: "ContextStore \<Rightarrow> nat list" where
  \<comment> \<open>\<open>this.context.blocks\<close>, as the addresses of its elements.\<close>
  "context_blocks s = arrays s ! blocks (store_context s)"

definition getBlocks :: "ContextStore \<Rightarrow> nat list" where
  \<comment> \<open>\<open>[...this.context.blocks]\<close>: a new array of the same objects.\<close>
  "getBlocks s = context_blocks s"

definition touch :: "jsstring \<Rightarrow> ContextStore \<Rightarrow> ContextStore" where
  \<comment> \<open>\<open>this.context.updatedAt = new Date().toISOString()\<close>.\<close>
  "touch now s = s\<lparr>store_context := (store_context s)\<lparr>updatedAt := now\<rparr>\<rparr>"

definition push_block :: "ContextBlock \<Rightarrow> ContextStore \<Rightarrow> nat \<times> ContextStore" where
  \<comment> \<open>A new block object, and \<open>this.context.blocks.push(block)\<close>.\<close>
  "push_block block s =
     (let a = length (objects s)
      in (a, s\<lparr>objects := objects s @ [block],
               arrays := (arrays s)[blocks (store_context s) := context_blocks s @ [a]]\<rparr>))"

definition addBlock ::
  "ContentType \<Rightarrow> jsstring \<Rightarrow> BlockMetadata option \<Rightarrow> jsstring \<Rightarrow> jsstring
     \<Rightarrow> ContextStore \<Rightarrow> nat \<times> ContextStore" where
  "addBlock type text meta uuid now s =
     (case push_block
             \<lparr>block_id = uuid, block_type = type, block_content = text,
              block_timestamp = now, block_metadata = meta, isStreaming = False,
              estimatedHeight = ContextStore_estimateHeight text\<rparr> s of
        (a, s1) \<Rightarrow> (a, touch now s1))"

definition createStreamingBlock ::
  "ContentType \<Rightarrow> BlockMetadata option \<Rightarrow> jsstring \<Rightarrow> jsstring
     \<Rightarrow> ContextStore \<Rightarrow> nat \<times> ContextStore" where
  "createStreamingBlock type meta uuid now s =
     (case push_block
             \<lparr>block_id = uuid, block_type = type, block_content = [],
              block_timestamp = now, block_metadata = meta, isStreaming = True,
              estimatedHeight = 50\<rparr> s of
        (a, s1) \<Rightarrow> (a, touch now s1))"

definition find_block :: "ContextStore \<Rightarrow> jsstring \<Rightarrow> nat option" where
  \<comment> \<open>\<open>this.context.blocks.find((b) => b.id === blockId)\<close>.\<close>
  "find_block s blockId =
     List.find (\<lambda>a. block_id (objects s ! a) = blockId) (context_blocks s)"

definition appendToBlock ::
  "jsstring \<Rightarrow> jsstring \<Rightarrow> jsstring \<Rightarrow> ContextStore \<Rightarrow> nat option \<times> ContextStore" where
  "appendToBlock blockId delta now s =
     (case find_block s blockId of
        None \<Rightarrow> (None, s)
      | Some a \<Rightarrow>
          (let block = objects s ! a;
               block1 = block\<lparr>block_content := block_content block @ delta\<rparr>;
               block2 = block1\<lparr>estimatedHeight :=
                                 ContextStore_estimateHeight (block_content block1)\<rparr>
           in (Some a, touch now (s\<lparr>objects := (objects s)[a := block2]\<rparr>))))"

definition spread :: "BlockMetadata option \<Rightarrow> BlockMetadata \<Rightarrow> BlockMetadata" where
  \<comment> \<open>\<open>{ ...block.metadata, ...metadata }\<close>; spreading \<open>undefined\<close> adds nothing.\<close>
  "spread old patch = (case old of None \<Rightarrow> Map.empty | Some m \<Rightarrow> m) ++ patch"

definition finalizeBlock ::
  "jsstring \<Rightarrow> BlockMetadata option \<Rightarrow> jsstring \<Rightarrow> ContextStore
     \<Rightarrow> nat option \<times> ContextStore" where
  "finalizeBlock blockId meta now s =
     (case find_block s blockId of
        None \<Rightarrow> (None, s)
      | Some a \<Rightarrow>
          (let block = objects s ! a;
               block1 = block\<lparr>isStreaming := False\<rparr>;
               block2 = (case meta of
                           None \<Rightarrow> block1
                         | Some patch \<Rightarrow>
                             block1\<lparr>block_metadata :=
                                      Some (spread (block_metadata block1) patch)\<rparr>)
           in (Some a, touch now (s\<lparr>objects := (objects s)[a := block2]\<rparr>))))"

definition updateTokenUsage :: "int \<Rightarrow> int \<Rightarrow> jsstring \<Rightarrow> ContextStore \<Rightarrow> ContextStore" where
  "updateTokenUsage inputTokens outputTokens now s =
     touch now
       (s\<lparr>store_context := (store_context s)
            \<lparr>totalInputTokens := totalInputTokens (store_context s) + inputTokens,
             totalOutputTokens := totalOutputTokens (store_context s) + outputTokens\<rparr>\<rparr>)"

definition clear :: "jsstring \<Rightarrow> jsstring \<Rightarrow> ContextStore \<Rightarrow> ContextStore" where
  "clear uuid now s =
     (case createEmptyContext uuid now (arrays s) of
        (ctx, arrs) \<Rightarrow> s\<lparr>store_context := ctx, arrays := arrs\<rparr>)"

definition setSystemPrompt ::
  "jsvalue \<Rightarrow> jsstring \<Rightarrow> jsstring \<Rightarrow> ContextStore \<Rightarrow> (exn + nat) \<times> ContextStore" where
  \<comment> \<open>The prompt and the time are set first. \<open>addBlock\<close> builds the block before it
      pushes it, and the last field of the block is \<open>this.estimateHeight(content)\<close>: on
      a prompt that is not a string the call throws and no block is added.\<close>
  "setSystemPrompt prompt uuid now s =
     (let s1 = touch now (s\<lparr>store_context := (store_context s)\<lparr>systemPrompt := Some prompt\<rparr>\<rparr>)
      in case prompt of
           StringValue content \<Rightarrow>
             (case addBlock SYSTEM content None uuid now s1 of (a, s2) \<Rightarrow> (Inr a, s2))
         | OtherValue \<Rightarrow> (Inl TypeError, s1))"

fun add_tool_blocks ::
  "(ToolDefinition \<times> jsstring \<times> jsstring \<times> jsstring) list \<Rightarrow> ContextStore
     \<Rightarrow> nat list \<times> ContextStore" where
  \<comment> \<open>The \<open>tools.map\<close> of \<open>setTools\<close>. Each tool comes with the text that
      \<open>JSON.stringify(tool, null, 2)\<close> gives for it, and with the identifier and the time
      of its block.\<close>
  "add_tool_blocks [] s = ([], s)"
| "add_tool_blocks ((tool, json, uuid, now) # rest) s =
     (case addBlock TOOL_DEFINITION json (Some [ToolName \<mapsto> Str (tool_name tool)]) uuid now s of
        (a, s1) \<Rightarrow> (case add_tool_blocks rest s1 of (as, s2) \<Rightarrow> (a # as, s2)))"

definition setTools ::
  "(ToolDefinition \<times> jsstring \<times> jsstring \<times> jsstring) list \<Rightarrow> jsstring \<Rightarrow> ContextStore
     \<Rightarrow> nat list \<times> ContextStore" where
  "setTools ts now s =
     add_tool_blocks ts (touch now (s\<lparr>store_context := (store_context s)\<lparr>tools := map fst ts\<rparr>\<rparr>))"

subsection \<open>Sequences of store operations\<close>

datatype store_op =
    SetSystemPrompt jsvalue jsstring jsstring
  | SetTools "(ToolDefinition \<times> jsstring \<times> jsstring \<times> jsstring) list" jsstring
  | AddBlock ContentType jsstring "BlockMetadata option" jsstring jsstring
  | CreateStreamingBlock ContentType "BlockMetadata option" jsstring jsstring
  | AppendToBlock jsstring jsstring jsstring
  | FinalizeBlock jsstring "BlockMetadata option" jsstring
  | UpdateTokenUsage int int jsstring
  | Clear jsstring jsstring

fun apply_op :: "store_op \<Rightarrow> ContextStore \<Rightarrow> ContextStore" where
  \<comment> \<open>The state that a call leaves, whatever it returns or throws.\<close>
  "apply_op (SetSystemPrompt prompt uuid now) s = snd (setSystemPrompt prompt uuid now s)"
| "apply_op (SetTools ts now) s = snd (setTools ts now s)"
| "apply_op (AddBlock type text meta uuid now) s = snd (addBlock type text meta uuid now s)"
| "apply_op (CreateStreamingBlock type meta uuid now) s =
     snd (createStreamingBlock type meta uuid now s)"
| "apply_op (AppendToBlock blockId delta now) s = snd (appendToBlock blockId delta now s)"
| "apply_op (FinalizeBlock blockId meta now) s = snd (finalizeBlock blockId meta now s)"
| "apply_op (UpdateTokenUsage inputTokens outputTokens now) s =
     updateTokenUsage inputTokens outputTokens now s"
| "apply_op (Clear uuid now) s = clear uuid now s"

fun run :: "store_op list \<Rightarrow> ContextStore \<Rightarrow> ContextStore" where
  "run [] s = s"
| "run (op # ops) s = run ops (apply_op op s)"

definition snapshot_blocks :: "ContextStore \<Rightarrow> ConversationContext \<Rightarrow> ContextBlock list" where
  \<comment> \<open>What \<open>snapshot.blocks\<close> shows to the holder of a snapshot when the store is in
      state \<open>s\<close>.\<close>
  "snapshot_blocks s snapshot = map (\<lambda>a. objects s ! a) (arrays s ! blocks snapshot)"


definition evolves :: "bool \<Rightarrow> ContextBlock \<Rightarrow> ContextBlock \<Rightarrow> bool" where
  \<comment> \<open>How a block object may differ between an earlier and a later state; \<open>fixed\<close>
      when no \<open>appendToBlock\<close> lies between the two.\<close>
  "evolves fixed b b' =
     (block_id b' = block_id b \<and> block_type b' = block_type b
      \<and> (isStreaming b' \<longrightarrow> isStreaming b)
      \<and> prefix (block_content b) (block_content b')
      \<and> (fixed \<longrightarrow> block_content b' = block_content b))"

fun is_append :: "store_op \<Rightarrow> bool" where
  "is_append (AppendToBlock blockId delta now) = True"
| "is_append op = False"

section \<open>Context store: results\<close>

lemma touch_simps [simp]:
  "objects (touch now s) = objects s" "arrays (touch now s) = arrays s"
  "blocks (store_context (touch now s)) = blocks (store_context s)"
  "totalInputTokens (store_context (touch now s)) = totalInputTokens (store_context s)"
  "totalOutputTokens (store_context (touch now s)) = totalOutputTokens (store_context s)"
  "context_blocks (touch now s) = context_blocks s"
  by (simp_all add: touch_def context_blocks_def)

lemma evolves_refl [simp]: "evolves k b b"
  by (simp add: evolves_def)

lemma evolves_trans: "evolves k b b' \<Longrightarrow> evolves k b' b'' \<Longrightarrow> evolves k b b''"
  by (auto simp: evolves_def)

text \<open>One step: the objects only grow in number, and each one evolves.\<close>

definition step_ok :: "bool \<Rightarrow> ContextStore \<Rightarrow> ContextStore \<Rightarrow> bool" where
  "step_ok k s s' =
     (length (objects s) \<le> length (objects s')
      \<and> (\<forall>a<length (objects s). evolves k (objects s ! a) (objects s' ! a)))"

lemma step_ok_refl [simp]: "step_ok k s s"
  by (simp add: step_ok_def)

lemma step_ok_trans: "step_ok k s s' \<Longrightarrow> step_ok k s' s'' \<Longrightarrow> step_ok k s s''"
  unfolding step_ok_def by (meson evolves_trans le_trans less_le_trans)

lemma step_ok_touch [simp]: "step_ok k s (touch now s') = step_ok k s s'"
  by (simp add: step_ok_def)

lemma step_ok_context [simp]: "step_ok k s (s'\<lparr>store_context := c\<rparr>) = step_ok k s s'"
  by (simp add: step_ok_def)

lemma step_ok_context_left: "step_ok k s s' \<Longrightarrow> step_ok k s0 s'"
  if "objects s0 = objects s"
  using that by (simp add: step_ok_def)

lemma step_ok_push: "step_ok k s (snd (push_block b s))"
  by (simp add: step_ok_def push_block_def Let_def nth_append)

lemma step_ok_update:
  assumes "evolves k (objects s ! a) b'"
  shows "step_ok k s (s\<lparr>objects := (objects s)[a := b']\<rparr>)"
proof (cases "a < length (objects s)")
  case True
  with assms show ?thesis by (simp add: step_ok_def nth_list_update)
next
  case False
  then show ?thesis by (simp add: step_ok_def)
qed

lemma step_ok_addBlock: "step_ok k s (snd (addBlock type text meta uuid now s))"
  using step_ok_push [of k s] by (simp add: addBlock_def split_beta)

lemma step_ok_createStreamingBlock:
  "step_ok k s (snd (createStreamingBlock type meta uuid now s))"
  using step_ok_push [of k s] by (simp add: createStreamingBlock_def split_beta)

lemma step_ok_appendToBlock: "step_ok False s (snd (appendToBlock blockId delta now s))"
  by (auto simp: appendToBlock_def Let_def evolves_def split: option.splits
      intro!: step_ok_update)

lemma step_ok_finalizeBlock: "step_ok k s (snd (finalizeBlock blockId meta now s))"
  by (auto simp: finalizeBlock_def Let_def evolves_def split: option.splits
      intro!: step_ok_update)

lemma step_ok_add_tool_blocks: "step_ok k s (snd (add_tool_blocks ts s))"
proof (induction ts arbitrary: s)
  case Nil
  then show ?case by simp
next
  case (Cons t ts)
  obtain tool json uuid now where t: "t = (tool, json, uuid, now)"
    by (cases t) auto
  let ?s1 = "snd (addBlock TOOL_DEFINITION json (Some [ToolName \<mapsto> Str (tool_name tool)])
                    uuid now s)"
  have "step_ok k s ?s1" by (rule step_ok_addBlock)
  moreover have "step_ok k ?s1 (snd (add_tool_blocks ts ?s1))" by (rule Cons.IH)
  ultimately have "step_ok k s (snd (add_tool_blocks ts ?s1))" by (rule step_ok_trans)
  then show ?case by (simp add: t split_beta)
qed

lemma snd_setSystemPrompt:
  "snd (setSystemPrompt prompt uuid now s)
     = (let s1 = touch now (s\<lparr>store_context := (store_context s)\<lparr>systemPrompt := Some prompt\<rparr>\<rparr>)
        in case prompt of
             StringValue content \<Rightarrow> snd (addBlock SYSTEM content None uuid now s1)
           | OtherValue \<Rightarrow> s1)"
  by (simp add: setSystemPrompt_def Let_def split_beta split: jsvalue.splits)

lemma fst_setSystemPrompt:
  "(\<exists>x. fst (setSystemPrompt prompt uuid now s) = Inl x) \<longleftrightarrow> prompt = OtherValue"
  by (simp add: setSystemPrompt_def Let_def split_beta split: jsvalue.splits)

lemma step_ok_setSystemPrompt: "step_ok k s (snd (setSystemPrompt prompt uuid now s))"
proof -
  let ?s1 = "touch now (s\<lparr>store_context := (store_context s)\<lparr>systemPrompt := Some prompt\<rparr>\<rparr>)"
  have "step_ok k ?s1 (snd (setSystemPrompt prompt uuid now s))"
    by (simp add: snd_setSystemPrompt Let_def step_ok_addBlock split: jsvalue.splits)
  then show ?thesis by (rule step_ok_context_left [rotated]) simp
qed

lemma step_ok_apply_op:
  assumes "k \<Longrightarrow> \<not> is_append op"
  shows "step_ok k s (apply_op op s)"
proof (cases op)
  case (SetSystemPrompt prompt uuid now)
  then show ?thesis by (simp add: step_ok_setSystemPrompt)
next
  case (SetTools ts now)
  have "step_ok k (touch now (s\<lparr>store_context := (store_context s)\<lparr>tools := map fst ts\<rparr>\<rparr>))
          (apply_op op s)"
    unfolding SetTools apply_op.simps setTools_def by (rule step_ok_add_tool_blocks)
  then show ?thesis by (rule step_ok_context_left [rotated]) simp
next
  case (AppendToBlock blockId delta now)
  with assms have "\<not> k" by auto
  with AppendToBlock show ?thesis by (simp add: step_ok_appendToBlock)
next
  case (Clear uuid now)
  then show ?thesis by (simp add: clear_def createEmptyContext_def step_ok_def)
qed (simp_all add: step_ok_addBlock step_ok_createStreamingBlock step_ok_finalizeBlock
      updateTokenUsage_def)

lemma step_ok_run:
  assumes "k \<Longrightarrow> \<forall>op\<in>set ops. \<not> is_append op"
  shows "step_ok k s (run ops s)"
  using assms
proof (induction ops arbitrary: s)
  case Nil
  then show ?case by simp
next
  case (Cons op ops)
  have "step_ok k s (apply_op op s)" using Cons.prems by (intro step_ok_apply_op) simp
  moreover have "step_ok k (apply_op op s) (run ops (apply_op op s))"
    using Cons.prems by (intro Cons.IH) simp
  ultimately show ?case by (simp add: step_ok_trans)
qed

lemma appendToBlock_whatever_flag:
  assumes "find_block s blockId = Some a" and "a < length (objects s)"
  shows "block_content (objects (snd (appendToBlock blockId delta now s)) ! a)
           = block_content (objects s ! a) @ delta"
    and "isStreaming (objects (snd (appendToBlock blockId delta now s)) ! a)
           = isStreaming (objects s ! a)"
  using assms by (simp_all add: appendToBlock_def Let_def)

text \<open>
  C5, as the code has it. For every block object and every sequence of store operations
  from any state: the object stays, with its id; once its streaming flag is false it
  stays false; its content only grows at the end, and only \<open>appendToBlock\<close> changes it.
  Nothing makes the content depend on the flag: \<open>appendToBlock\<close> does not read it, and
  on the block that it finds it puts the text at the end of the content and leaves the
  flag as it is, whether the block is streaming or finalized.
\<close>

theorem block_flag_and_content_monotone:
  assumes "a < length (objects s)"
  shows "a < length (objects (run ops s))
     \<and> block_id (objects (run ops s) ! a) = block_id (objects s ! a)
     \<and> (\<not> isStreaming (objects s ! a) \<longrightarrow> \<not> isStreaming (objects (run ops s) ! a))
     \<and> prefix (block_content (objects s ! a)) (block_content (objects (run ops s) ! a))
     \<and> ((\<forall>op\<in>set ops. \<not> is_append op)
          \<longrightarrow> block_content (objects (run ops s) ! a) = block_content (objects s ! a))
     \<and> (find_block s blockId = Some a
          \<longrightarrow> block_content (objects (apply_op (AppendToBlock blockId delta now) s) ! a)
                = block_content (objects s ! a) @ delta
              \<and> isStreaming (objects (apply_op (AppendToBlock blockId delta now) s) ! a)
                = isStreaming (objects s ! a))"
proof -
  have "step_ok False s (run ops s)" by (rule step_ok_run) simp
  with assms have 1: "a < length (objects (run ops s))"
    and 2: "evolves False (objects s ! a) (objects (run ops s) ! a)"
    by (auto simp: step_ok_def)
  have 3: "block_content (objects (run ops s) ! a) = block_content (objects s ! a)"
    if "\<forall>op\<in>set ops. \<not> is_append op"
  proof -
    from that have "step_ok True s (run ops s)" by (intro step_ok_run)
    with assms show ?thesis by (simp add: step_ok_def evolves_def)
  qed
  have 4: "block_content (objects (apply_op (AppendToBlock blockId delta now) s) ! a)
                = block_content (objects s ! a) @ delta
              \<and> isStreaming (objects (apply_op (AppendToBlock blockId delta now) s) ! a)
                = isStreaming (objects s ! a)"
    if "find_block s blockId = Some a"
    using appendToBlock_whatever_flag [OF that assms] by simp
  from 1 2 3 4 show ?thesis by (auto simp: evolves_def)
qed

definition finalized_then_appended :: "store_op list" where
  "finalized_then_appended =
     [CreateStreamingBlock ASSISTANT_TEXT None (js ''b1'') (js ''t1''),
      AppendToBlock (js ''b1'') (js ''a'') (js ''t2''),
      FinalizeBlock (js ''b1'') None (js ''t3''),
      AppendToBlock (js ''b1'') (js ''b'') (js ''t4'')]"

lemmas store_defs =
  ContextStore_new_def createEmptyContext_def push_block_def addBlock_def
  createStreamingBlock_def find_block_def appendToBlock_def finalizeBlock_def
  updateTokenUsage_def clear_def touch_def context_blocks_def getContext_def
  snapshot_blocks_def spread_def Let_def

text \<open>
  C5 as stated fails: a block that has been finalized still takes an append.
\<close>

theorem content_changes_after_finalize:
  "map (\<lambda>b. (isStreaming b, block_content b))
       (objects (run (take 3 finalized_then_appended) (ContextStore_new (js ''c'') (js ''t0''))))
     = [(False, js ''a'')]
   \<and> map (\<lambda>b. (isStreaming b, block_content b))
       (objects (run finalized_then_appended (ContextStore_new (js ''c'') (js ''t0''))))
     = [(False, js ''ab'')]"
  by (simp add: finalized_then_appended_def store_defs js_def)

theorem block_flag_and_content_monotone_witness:
  "0 < length (objects (run (take 3 finalized_then_appended)
                          (ContextStore_new (js ''c'') (js ''t0''))))
   \<and> \<not> isStreaming (objects (run (drop 3 finalized_then_appended)
                                  (run (take 3 finalized_then_appended)
                                     (ContextStore_new (js ''c'') (js ''t0'')))) ! 0)
   \<and> \<not> is_append (FinalizeBlock (js ''b1'') None (js ''t5''))
   \<and> block_content (objects (run [FinalizeBlock (js ''b1'') None (js ''t5'')]
                                 (run (take 3 finalized_then_appended)
                                    (ContextStore_new (js ''c'') (js ''t0'')))) ! 0)
       = js ''a''
   \<and> find_block (run (take 3 finalized_then_appended)
                    (ContextStore_new (js ''c'') (js ''t0''))) (js ''b1'') = Some 0
   \<and> block_content (objects (apply_op (AppendToBlock (js ''b1'') (js ''b'') (js ''t4''))
                                 (run (take 3 finalized_then_appended)
                                    (ContextStore_new (js ''c'') (js ''t0'')))) ! 0)
       = js ''a'' @ js ''b''
   \<and> \<not> isStreaming (objects (apply_op (AppendToBlock (js ''b1'') (js ''b'') (js ''t4''))
                                 (run (take 3 finalized_then_appended)
                                    (ContextStore_new (js ''c'') (js ''t0'')))) ! 0)"
proof -
  let ?s = "run (take 3 finalized_then_appended) (ContextStore_new (js ''c'') (js ''t0''))"
  have a: "0 < length (objects ?s)"
    by (simp add: finalized_then_appended_def store_defs)
  have f: "\<not> isStreaming (objects ?s ! 0)"
    by (simp add: finalized_then_appended_def store_defs)
  have c: "block_content (objects ?s ! 0) = js ''a''"
    by (simp add: finalized_then_appended_def store_defs js_def)
  have n: "\<forall>op\<in>set [FinalizeBlock (js ''b1'') None (js ''t5'')]. \<not> is_append op"
    by simp
  have b: "find_block ?s (js ''b1'') = Some 0"
    by (simp add: finalized_then_appended_def store_defs)
  from block_flag_and_content_monotone [OF a, of "drop 3 finalized_then_appended"] f
  have 1: "\<not> isStreaming (objects (run (drop 3 finalized_then_appended) ?s) ! 0)" by blast
  from block_flag_and_content_monotone [OF a, of "[FinalizeBlock (js ''b1'') None (js ''t5'')]"]
    n c
  have 2: "block_content (objects (run [FinalizeBlock (js ''b1'') None (js ''t5'')] ?s) ! 0)
             = js ''a''"
    by metis
  from block_flag_and_content_monotone [OF a, of _ "js ''b1''" "js ''b''" "js ''t4''"] b c f
  have 3: "block_content (objects (apply_op (AppendToBlock (js ''b1'') (js ''b'') (js ''t4''))
                                     ?s) ! 0) = js ''a'' @ js ''b''"
    and 4: "\<not> isStreaming (objects (apply_op (AppendToBlock (js ''b1'') (js ''b'') (js ''t4''))
                                     ?s) ! 0)"
    by metis+
  from a 1 2 b 3 4 show ?thesis by simp
qed

subsection \<open>Finalizing twice\<close>

lemma block_id_list_update:
  assumes "block_id b' = block_id (objs ! a)"
  shows "block_id (objs[a := b'] ! x) = block_id (objs ! x)"
proof (cases "a < length objs")
  case True
  with assms show ?thesis by (simp add: nth_list_update)
next
  case False
  then show ?thesis by (simp add: list_update_beyond not_less)
qed

lemma find_block_after_update:
  assumes "block_id b' = block_id (objects s ! a)"
  shows "find_block (touch now (s\<lparr>objects := (objects s)[a := b']\<rparr>)) blockId
           = find_block s blockId"
  using assms by (simp add: find_block_def context_blocks_def block_id_list_update)

lemma spread_twice: "spread (Some (spread old patch)) patch = spread old patch"
  by (rule ext) (simp add: spread_def map_add_def split: option.splits)

lemma touch_touch: "touch now' (touch now s) = touch now' s"
  by (simp add: touch_def)

lemma finalizeBlock_twice:
  "finalizeBlock blockId meta now' (snd (finalizeBlock blockId meta now s))
     = finalizeBlock blockId meta now' s"
proof (cases "find_block s blockId")
  case None
  then show ?thesis by (simp add: finalizeBlock_def)
next
  case (Some a)
  let ?b = "objects s ! a"
  let ?b2 = "case meta of None \<Rightarrow> ?b\<lparr>isStreaming := False\<rparr>
             | Some patch \<Rightarrow> ?b\<lparr>isStreaming := False,
                 block_metadata := Some (spread (block_metadata ?b) patch)\<rparr>"
  let ?s1 = "touch now (s\<lparr>objects := (objects s)[a := ?b2]\<rparr>)"
  have id: "block_id ?b2 = block_id ?b" by (simp split: option.splits)
  have s1: "snd (finalizeBlock blockId meta now s) = ?s1"
    using Some by (simp add: finalizeBlock_def Let_def split: option.splits)
  have f1: "find_block ?s1 blockId = Some a"
    using find_block_after_update [OF id] Some by simp
  show ?thesis
  proof (cases "a < length (objects s)")
    case True
    then have "objects ?s1 ! a = ?b2" by simp
    then show ?thesis
      unfolding s1 using Some f1 True
      by (simp add: finalizeBlock_def Let_def touch_def spread_twice split: option.splits)
  next
    case False
    then have "?s1 = touch now s" by (simp add: list_update_beyond not_less)
    then show ?thesis
      unfolding s1 using Some f1 False
      by (simp add: finalizeBlock_def Let_def touch_def list_update_beyond not_less
          split: option.splits)
  qed
qed

text \<open>
  C8, as the code has it. Finalizing a block that is in the store a second time, with the
  same patch, gives the state and the result of one call made at the time of the second;
  the second call changes nothing but the time of the last update, which every mutation
  sets to the time of the call. So two calls do not leave the state of the first call
  alone: \<open>updatedAt\<close> differs.
\<close>

theorem finalizeBlock_idempotent:
  assumes "find_block s blockId \<noteq> None"
  shows "finalizeBlock blockId meta now' (snd (finalizeBlock blockId meta now s))
           = finalizeBlock blockId meta now' s
     \<and> snd (finalizeBlock blockId meta now' (snd (finalizeBlock blockId meta now s)))
           = touch now' (snd (finalizeBlock blockId meta now s))"
proof
  show "finalizeBlock blockId meta now' (snd (finalizeBlock blockId meta now s))
           = finalizeBlock blockId meta now' s"
    by (rule finalizeBlock_twice)
next
  from assms obtain a where a: "find_block s blockId = Some a" by auto
  have "snd (finalizeBlock blockId meta now' s) = touch now' (snd (finalizeBlock blockId meta now s))"
    using a by (simp add: finalizeBlock_def Let_def touch_def split: option.splits)
  then show "snd (finalizeBlock blockId meta now' (snd (finalizeBlock blockId meta now s)))
           = touch now' (snd (finalizeBlock blockId meta now s))"
    by (simp add: finalizeBlock_twice)
qed

definition one_streaming_block :: ContextStore where
  "one_streaming_block =
     run [CreateStreamingBlock ASSISTANT_TEXT None (js ''b1'') (js ''t1'')]
       (ContextStore_new (js ''c'') (js ''t0''))"

theorem finalizeBlock_idempotent_witness:
  "find_block one_streaming_block (js ''b1'') = Some 0
   \<and> finalizeBlock (js ''b1'') (Some [StopReason \<mapsto> Str (js ''end_turn'')]) (js ''t3'')
        (snd (finalizeBlock (js ''b1'') (Some [StopReason \<mapsto> Str (js ''end_turn'')]) (js ''t2'')
                one_streaming_block))
       = finalizeBlock (js ''b1'') (Some [StopReason \<mapsto> Str (js ''end_turn'')]) (js ''t3'')
           one_streaming_block"
proof -
  have f: "find_block one_streaming_block (js ''b1'') = Some 0"
    by (simp add: one_streaming_block_def store_defs)
  then have "find_block one_streaming_block (js ''b1'') \<noteq> None" by simp
  from finalizeBlock_idempotent [OF this] f show ?thesis by blast
qed

theorem finalizeBlock_counterexample:
  "snd (finalizeBlock (js ''b1'') None (js ''t3'')
          (snd (finalizeBlock (js ''b1'') None (js ''t2'') one_streaming_block)))
     \<noteq> snd (finalizeBlock (js ''b1'') None (js ''t2'') one_streaming_block)
   \<and> updatedAt (store_context (snd (finalizeBlock (js ''b1'') None (js ''t2'')
        one_streaming_block))) = js ''t2''
   \<and> updatedAt (store_context (snd (finalizeBlock (js ''b1'') None (js ''t3'')
        (snd (finalizeBlock (js ''b1'') None (js ''t2'') one_streaming_block))))) = js ''t3''"
proof -
  let ?once = "snd (finalizeBlock (js ''b1'') None (js ''t2'') one_streaming_block)"
  let ?twice = "snd (finalizeBlock (js ''b1'') None (js ''t3'') ?once)"
  have 1: "updatedAt (store_context ?once) = js ''t2''"
    by (simp add: one_streaming_block_def store_defs)
  have 2: "updatedAt (store_context ?twice) = js ''t3''"
    by (simp add: one_streaming_block_def store_defs)
  have "js ''t2'' \<noteq> js ''t3''" by (simp add: js_def)
  with 1 2 have "?twice \<noteq> ?once" by metis
  with 1 2 show ?thesis by simp
qed

subsection \<open>Token totals\<close>

fun usage_calls :: "(int \<times> int \<times> jsstring) list \<Rightarrow> store_op list" where
  "usage_calls [] = []"
| "usage_calls ((inputTokens, outputTokens, now) # cs) =
     UpdateTokenUsage inputTokens outputTokens now # usage_calls cs"

lemma usage_calls_totals:
  "totalInputTokens (store_context (run (usage_calls cs) s))
     = totalInputTokens (store_context s) + sum_list (map fst cs)
   \<and> totalOutputTokens (store_context (run (usage_calls cs) s))
     = totalOutputTokens (store_context s) + sum_list (map (fst \<circ> snd) cs)"
  by (induction cs arbitrary: s) (auto simp: updateTokenUsage_def)

text \<open>
  C9, as the code has it. From a fresh context, \<open>updateTokenUsage(3,5)\<close> and then
  \<open>updateTokenUsage(2,1)\<close> leave the totals at 5 and 6. The method adds whatever
  numbers it is given: over calls whose arguments are not negative the totals never
  decrease.
\<close>

theorem updateTokenUsage_totals:
  "totalInputTokens (store_context (updateTokenUsage 2 1 t2 (updateTokenUsage 3 5 t1
       (ContextStore_new uuid t0)))) = 5
   \<and> totalOutputTokens (store_context (updateTokenUsage 2 1 t2 (updateTokenUsage 3 5 t1
       (ContextStore_new uuid t0)))) = 6
   \<and> ((\<forall>c\<in>set cs. 0 \<le> fst c \<and> 0 \<le> fst (snd c))
        \<longrightarrow> totalInputTokens (store_context s)
              \<le> totalInputTokens (store_context (run (usage_calls cs) s))
          \<and> totalOutputTokens (store_context s)
              \<le> totalOutputTokens (store_context (run (usage_calls cs) s)))"
proof -
  have "0 \<le> sum_list (map fst cs)" "0 \<le> sum_list (map (fst \<circ> snd) cs)"
    if "\<forall>c\<in>set cs. 0 \<le> fst c \<and> 0 \<le> fst (snd c)"
    using that by (auto intro!: sum_list_nonneg)
  then show ?thesis
    by (simp add: usage_calls_totals) (simp add: store_defs)
qed

theorem updateTokenUsage_totals_witness:
  "totalInputTokens (store_context (ContextStore_new [] [])) = 0
   \<and> totalInputTokens (store_context
        (run (usage_calls [(3, 5, []), (2, 1, [])]) (ContextStore_new [] []))) = 5
   \<and> totalInputTokens (store_context (ContextStore_new [] []))
       \<le> totalInputTokens (store_context
            (run (usage_calls [(3, 5, []), (2, 1, [])]) (ContextStore_new [] [])))"
  using updateTokenUsage_totals [of "[]" "[]" "[]" "[]" "[(3, 5, []), (2, 1, [])]"
      "ContextStore_new [] []"]
  by (simp add: store_defs)

text \<open>C9 as stated fails on a call with a negative argument.\<close>

theorem updateTokenUsage_counterexample:
  "totalInputTokens (store_context (updateTokenUsage (- 1) 0 [] (ContextStore_new [] [])))
     < totalInputTokens (store_context (ContextStore_new [] []))"
  by (simp add: store_defs)


subsection \<open>Snapshots\<close>


lemma blocks_push_block [simp]:
  "blocks (store_context (snd (push_block b s))) = blocks (store_context s)"
  "length (arrays (snd (push_block b s))) = length (arrays s)"
  by (simp_all add: push_block_def Let_def)

lemma blocks_addBlock [simp]:
  "blocks (store_context (snd (addBlock type text meta uuid now s))) = blocks (store_context s)"
  "length (arrays (snd (addBlock type text meta uuid now s))) = length (arrays s)"
  by (simp_all add: addBlock_def split_beta)

lemma blocks_add_tool_blocks [simp]:
  "blocks (store_context (snd (add_tool_blocks ts s))) = blocks (store_context s)
   \<and> length (arrays (snd (add_tool_blocks ts s))) = length (arrays s)"
  by (induction ts arbitrary: s) (auto simp: split_beta)





text \<open>
  In the states that the store reaches from its constructor every address held in an
  array is the address of an object, so no read of the model is out of range.
\<close>

definition addresses_ok :: "ContextStore \<Rightarrow> bool" where
  "addresses_ok s =
     (blocks (store_context s) < length (arrays s)
      \<and> list_all (list_all (\<lambda>a. a < length (objects s))) (arrays s))"

lemma addresses_ok_context [simp]:
  "blocks c = blocks (store_context s)
     \<Longrightarrow> addresses_ok (s\<lparr>store_context := c\<rparr>) = addresses_ok s"
  by (simp add: addresses_ok_def)

lemma addresses_ok_touch [simp]: "addresses_ok (touch now s) = addresses_ok s"
  by (simp add: touch_def)

lemma addresses_ok_push:
  assumes "addresses_ok s"
  shows "addresses_ok (snd (push_block b s))"
proof -
  let ?r = "blocks (store_context s)"
  from assms have r: "?r < length (arrays s)"
    and all: "\<forall>arr\<in>set (arrays s). \<forall>a\<in>set arr. a < length (objects s)"
    by (simp_all add: addresses_ok_def list_all_iff)
  have "\<forall>a\<in>set arr. a < Suc (length (objects s))"
    if "arr \<in> set ((arrays s)[?r := arrays s ! ?r @ [length (objects s)]])" for arr
  proof -
    from that have "arr = arrays s ! ?r @ [length (objects s)] \<or> arr \<in> set (arrays s)"
      by (auto dest: set_update_subset_insert [THEN subsetD])
    with all r show ?thesis by (auto simp: less_Suc_eq dest: nth_mem)
  qed
  with r show ?thesis
    by (simp add: addresses_ok_def push_block_def Let_def context_blocks_def list_all_iff)
qed

lemma addresses_ok_update:
  "addresses_ok s \<Longrightarrow> addresses_ok (s\<lparr>objects := (objects s)[a := b]\<rparr>)"
  by (simp add: addresses_ok_def)

lemma addresses_ok_add_tool_blocks:
  "addresses_ok s \<Longrightarrow> addresses_ok (snd (add_tool_blocks ts s))"
proof (induction ts arbitrary: s)
  case Nil
  then show ?case by simp
next
  case (Cons t ts)
  obtain tool json uuid now where t: "t = (tool, json, uuid, now)"
    by (cases t) auto
  have "addresses_ok (snd (addBlock TOOL_DEFINITION json
          (Some [ToolName \<mapsto> Str (tool_name tool)]) uuid now s))"
    using Cons.prems by (simp add: addBlock_def split_beta addresses_ok_push)
  then show ?case by (simp add: t split_beta Cons.IH)
qed

lemma addresses_ok_apply_op:
  assumes "addresses_ok s"
  shows "addresses_ok (apply_op op s)"
proof (cases op)
  case (SetSystemPrompt prompt uuid now)
  then show ?thesis
    using assms
    by (simp add: snd_setSystemPrompt Let_def addBlock_def split_beta addresses_ok_push
        split: jsvalue.splits)
next
  case (SetTools ts now)
  then show ?thesis
    using assms by (simp add: setTools_def addresses_ok_add_tool_blocks)
next
  case (AddBlock ty str meta uuid now)
  then show ?thesis
    using assms by (simp add: addBlock_def split_beta addresses_ok_push)
next
  case (CreateStreamingBlock ty meta uuid now)
  then show ?thesis
    using assms by (simp add: createStreamingBlock_def split_beta addresses_ok_push)
next
  case (AppendToBlock blockId delta now)
  then show ?thesis
    using assms
    by (simp add: appendToBlock_def Let_def addresses_ok_update split: option.splits)
next
  case (FinalizeBlock blockId meta now)
  then show ?thesis
    using assms
    by (simp add: finalizeBlock_def Let_def addresses_ok_update split: option.splits)
next
  case (UpdateTokenUsage i j now)
  then show ?thesis
    using assms by (simp add: updateTokenUsage_def)
next
  case (Clear uuid now)
  then show ?thesis
    using assms by (simp add: clear_def createEmptyContext_def addresses_ok_def)
qed

lemma addresses_ok_reachable: "addresses_ok (run ops (ContextStore_new uuid now))"
proof -
  have "addresses_ok s \<Longrightarrow> addresses_ok (run ops s)" for s
    by (induction ops arbitrary: s) (simp_all add: addresses_ok_apply_op)
  moreover have "addresses_ok (ContextStore_new uuid now)"
    by (simp add: ContextStore_new_def createEmptyContext_def addresses_ok_def)
  ultimately show ?thesis by blast
qed




section \<open>Delta channel, model session and chat route\<close>

text \<open>
  \<open>server/src/services/streaming.ts\<close>, the methods \<open>sendMessage\<close> and
  \<open>handleToolUse\<close> of \<open>ClaudeClient\<close>, and \<open>router.post('/')\<close> of
  \<open>server/src/routes/chat.ts\<close>.
\<close>

subsection \<open>The response as an event stream\<close>

datatype SSEEventType =
  connected_sse | message_start | content_block_start | content_block_delta
  | content_block_stop | message_delta | message_stop | tool_result | error

datatype sse_data =
    ConnectedData
  | MessageStartData jsstring jsstring
  | ContentBlockStartData jsstring ContentType "jsstring option" "jsstring option"
  | ContentBlockDeltaData jsstring jsstring
  | ContentBlockStopData jsstring
  | MessageStopData jsstring jsstring int int
  | ToolResultData jsstring jsstring jsstring
  | ErrorData jsstring "jsstring option"

datatype wire = Headers | Frame SSEEventType sse_data | End

text \<open>
  What has been written to the response, whether it has been ended, and whether the
  heartbeat timer is set. The heartbeat comments themselves depend on the passing of
  time and are not part of the model.
\<close>

record Response =
  sent :: "wire list"
  writableEnded :: bool
  heartbeat :: bool

definition initSSE :: "Response \<Rightarrow> Response" where
  "initSSE r = r\<lparr>sent := sent r @ [Headers]\<rparr>"

definition sendSSE :: "SSEEventType \<Rightarrow> sse_data \<Rightarrow> Response \<Rightarrow> Response" where
  "sendSSE eventType d r = r\<lparr>sent := sent r @ [Frame eventType d]\<rparr>"

definition closeSSE :: "Response \<Rightarrow> Response" where
  "closeSSE r = (if \<not> writableEnded r then r\<lparr>sent := sent r @ [End], writableEnded := True\<rparr>
                 else r)"

definition createSSEHandler :: "Response \<Rightarrow> Response" where
  \<comment> \<open>\<open>initSSE\<close> and \<open>startHeartbeat\<close>.\<close>
  "createSSEHandler r = (initSSE r)\<lparr>heartbeat := True\<rparr>"

definition sse_send :: "SSEEventType \<Rightarrow> sse_data \<Rightarrow> Response \<Rightarrow> Response" where
  \<comment> \<open>The \<open>send\<close> of the handler.\<close>
  "sse_send eventType d r = (if \<not> writableEnded r then sendSSE eventType d r else r)"

definition sse_close :: "Response \<Rightarrow> Response" where
  \<comment> \<open>The \<open>close\<close> of the handler: \<open>stopHeartbeat\<close>, then \<open>closeSSE\<close>.\<close>
  "sse_close r = closeSSE (r\<lparr>heartbeat := False\<rparr>)"

definition new_response :: Response where
  \<comment> \<open>The response of a request that has just arrived.\<close>
  "new_response = \<lparr>sent = [], writableEnded = False, heartbeat = False\<rparr>"

subsection \<open>The model session\<close>

text \<open>
  The model API is outside the program. One call of \<open>messages.stream\<close> is a turn of the
  script: the events that the stream delivers to the handlers, in order, and then the
  final message, or the error with which the stream fails.
\<close>

datatype content_block_start = ToolUseStart jsstring jsstring | ThinkingStart | OtherStart

datatype block_delta = TextDelta jsstring | ThinkingDelta jsstring | InputJsonDelta jsstring
  | OtherDelta

datatype stream_event =
    MessageEvent jsstring jsstring
  | ContentBlockStart nat content_block_start
  | ContentBlockDelta nat block_delta
  | ContentBlockStop nat
  | OtherEvent

datatype api_content = ToolUseBlock jsstring jsstring jsstring | OtherBlock

record Message =
  msg_id :: jsstring
  msg_content :: "api_content list"
  stop_reason :: "jsstring option"
  input_tokens :: int
  output_tokens :: int

datatype outcome = Resolved Message | Failed jsstring "jsstring option"

record turn =
  events :: "stream_event list"
  final :: outcome

datatype MessageParam =
    UserMessage jsstring
  | ToolResults "(jsstring \<times> jsstring) list"
  | AssistantMessage "api_content list"

datatype ApiMode = direct | proxy | unconfigured

text \<open>
  What the program takes from its environment: the identifiers that \<open>uuidv4()\<close> returns
  and the clock readings, by the number of draws made before, the result of running a
  tool (by that number, the name and the input), and the text of a tool definition.
\<close>

record env =
  uuidv4 :: "nat \<Rightarrow> jsstring"
  clock :: "nat \<Rightarrow> jsstring"
  executeTool :: "nat \<Rightarrow> jsstring \<Rightarrow> jsstring \<Rightarrow> jsstring"
  stringify :: "ToolDefinition \<Rightarrow> jsstring"

record World =
  store :: ContextStore
  client_messages :: "MessageParam list"
  client_systemPrompt :: jsvalue
  client_tools :: "ToolDefinition list"
  client_apiMode :: ApiMode
  res :: Response
  draws :: nat

definition send :: "SSEEventType \<Rightarrow> sse_data \<Rightarrow> World \<Rightarrow> World" where
  "send eventType d w = w\<lparr>res := sse_send eventType d (res w)\<rparr>"

definition close :: "World \<Rightarrow> World" where
  "close w = w\<lparr>res := sse_close (res w)\<rparr>"

subsection \<open>The callbacks of the chat route\<close>

definition onMessageStart :: "jsstring \<Rightarrow> jsstring \<Rightarrow> World \<Rightarrow> World" where
  "onMessageStart messageId model = send message_start (MessageStartData messageId model)"

definition onContentBlockStart ::
  "jsstring \<Rightarrow> ContentType \<Rightarrow> jsstring option \<Rightarrow> jsstring option \<Rightarrow> World \<Rightarrow> World" where
  "onContentBlockStart blockId blockType toolName toolId =
     send content_block_start (ContentBlockStartData blockId blockType toolName toolId)"

definition onContentBlockDelta :: "jsstring \<Rightarrow> jsstring \<Rightarrow> World \<Rightarrow> World" where
  "onContentBlockDelta blockId delta =
     send content_block_delta (ContentBlockDeltaData blockId delta)"

definition onContentBlockStop :: "jsstring \<Rightarrow> World \<Rightarrow> World" where
  "onContentBlockStop blockId = send content_block_stop (ContentBlockStopData blockId)"

definition onMessageStop :: "jsstring \<Rightarrow> jsstring \<Rightarrow> int \<Rightarrow> int \<Rightarrow> World \<Rightarrow> World" where
  "onMessageStop messageId stopReason inputTokens outputTokens w =
     (let w1 = send message_stop
                 (MessageStopData messageId stopReason inputTokens outputTokens) w
      in if stopReason \<noteq> js ''tool_use'' then close w1 else w1)"

definition onToolResult :: "jsstring \<Rightarrow> jsstring \<Rightarrow> jsstring \<Rightarrow> World \<Rightarrow> World" where
  "onToolResult toolId toolName result = send tool_result (ToolResultData toolId toolName result)"

definition onError :: "jsstring \<Rightarrow> jsstring option \<Rightarrow> World \<Rightarrow> World" where
  "onError msg code w = close (send error (ErrorData msg code) w)"

subsection \<open>\<open>ClaudeClient\<close>\<close>

definition in_store :: "(ContextStore \<Rightarrow> 'a \<times> ContextStore) \<Rightarrow> World \<Rightarrow> 'a \<times> World" where
  \<comment> \<open>A call of a method of the store.\<close>
  "in_store f w = (case f (store w) of (x, s) \<Rightarrow> (x, w\<lparr>store := s\<rparr>))"

definition draw :: "env \<Rightarrow> World \<Rightarrow> (jsstring \<times> jsstring) \<times> World" where
  \<comment> \<open>The next identifier and the next clock reading.\<close>
  "draw e w = ((uuidv4 e (draws w), clock e (draws w)), w\<lparr>draws := Suc (draws w)\<rparr>)"

definition store_addBlock ::
  "env \<Rightarrow> ContentType \<Rightarrow> jsstring \<Rightarrow> BlockMetadata option \<Rightarrow> World \<Rightarrow> World" where
  \<comment> \<open>\<open>contextStore.addBlock(...)\<close>, the block that it returns not being used.\<close>
  "store_addBlock e type text meta w =
     (case draw e w of
        ((uuid, now), w1) \<Rightarrow> snd (in_store (addBlock type text meta uuid now) w1))"

record turn_state =
  messageId :: "jsstring option"
  blockMap :: "nat \<rightharpoonup> jsstring"

definition str_or_undefined :: "jsstring option \<Rightarrow> meta_value" where
  "str_or_undefined x = (case x of None \<Rightarrow> Undefined | Some v \<Rightarrow> Str v)"

definition truthy :: "jsstring option \<Rightarrow> jsstring option" where
  \<comment> \<open>\<open>x || undefined\<close>: a missing or empty string is falsy.\<close>
  "truthy x = (case x of None \<Rightarrow> None | Some v \<Rightarrow> if v = [] then None else Some v)"

fun handle_event :: "env \<Rightarrow> stream_event \<Rightarrow> turn_state \<times> World \<Rightarrow> turn_state \<times> World" where
  "handle_event e (MessageEvent mid model) (ts, w) =
     (ts\<lparr>messageId := Some mid\<rparr>, onMessageStart mid model w)"
| "handle_event e (ContentBlockStart idx contentBlock) (ts, w) =
     (let (blockType, toolName, toolId) =
            (case contentBlock of
               ToolUseStart name tid \<Rightarrow> (TOOL_USE, Some name, Some tid)
             | ThinkingStart \<Rightarrow> (ASSISTANT_THINKING, None, None)
             | OtherStart \<Rightarrow> (ASSISTANT_TEXT, None, None));
          meta = [ToolName \<mapsto> str_or_undefined toolName,
                  ToolId \<mapsto> str_or_undefined toolId,
                  MessageId \<mapsto> str_or_undefined (truthy (messageId ts))]
      in case draw e w of
           ((uuid, now), w1) \<Rightarrow>
             (case in_store (createStreamingBlock blockType (Some meta) uuid now) w1 of
                (a, w2) \<Rightarrow>
                  (ts\<lparr>blockMap := (blockMap ts)(idx \<mapsto> uuid)\<rparr>,
                   onContentBlockStart uuid blockType toolName toolId w2)))"
| "handle_event e (ContentBlockDelta idx d) (ts, w) =
     (case truthy (blockMap ts idx) of
        None \<Rightarrow> (ts, w)
      | Some blockId \<Rightarrow>
          (let delta = (case d of
                          TextDelta t \<Rightarrow> t
                        | ThinkingDelta t \<Rightarrow> t
                        | InputJsonDelta t \<Rightarrow> t
                        | OtherDelta \<Rightarrow> [])
           in if delta \<noteq> []
              then (case draw e w of
                      ((uuid, now), w1) \<Rightarrow>
                        (ts, onContentBlockDelta blockId delta
                               (snd (in_store (appendToBlock blockId delta now) w1))))
              else (ts, w)))"
| "handle_event e (ContentBlockStop idx) (ts, w) =
     (case truthy (blockMap ts idx) of
        None \<Rightarrow> (ts, w)
      | Some blockId \<Rightarrow>
          (case draw e w of
             ((uuid, now), w1) \<Rightarrow>
               (ts, onContentBlockStop blockId
                      (snd (in_store (finalizeBlock blockId None now) w1)))))"
| "handle_event e OtherEvent (ts, w) = (ts, w)"

fun run_tools :: "env \<Rightarrow> api_content list \<Rightarrow> World \<Rightarrow> (jsstring \<times> jsstring) list \<times> World" where
  \<comment> \<open>The loop of \<open>handleToolUse\<close> over the tool-use blocks: the tool results, and the
      state.\<close>
  "run_tools e [] w = ([], w)"
| "run_tools e (OtherBlock # rest) w = run_tools e rest w"
| "run_tools e (ToolUseBlock tid name inp # rest) w =
     (let result = executeTool e (draws w) name inp;
          w1 = store_addBlock e TOOL_RESULT result
                 (Some [ToolName \<mapsto> Str name, ToolId \<mapsto> Str tid]) w;
          w2 = onToolResult tid name result w1
      in case run_tools e rest w2 of
           (results, w3) \<Rightarrow> ((tid, result) # results, w3))"

definition handle_events ::
  "env \<Rightarrow> stream_event list \<Rightarrow> World \<Rightarrow> turn_state \<times> World" where
  \<comment> \<open>The handlers of one stream, from the empty block map, over its events in order.\<close>
  "handle_events e evs w =
     foldl (\<lambda>st ev. handle_event e ev st) (\<lparr>messageId = None, blockMap = Map.empty\<rparr>, w) evs"

definition store_updateTokenUsage :: "env \<Rightarrow> int \<Rightarrow> int \<Rightarrow> World \<Rightarrow> World" where
  "store_updateTokenUsage e inputTokens outputTokens w =
     (case draw e w of
        ((uuid, now), w1) \<Rightarrow>
          w1\<lparr>store := updateTokenUsage inputTokens outputTokens now (store w1)\<rparr>)"

definition push_message :: "MessageParam \<Rightarrow> World \<Rightarrow> World" where
  \<comment> \<open>\<open>this.messages.push(...)\<close>.\<close>
  "push_message p w = w\<lparr>client_messages := client_messages w @ [p]\<rparr>"

definition stop_reason_or_end_turn :: "Message \<Rightarrow> jsstring" where
  \<comment> \<open>\<open>finalMessage.stop_reason || 'end_turn'\<close>.\<close>
  "stop_reason_or_end_turn m =
     (case truthy (stop_reason m) of None \<Rightarrow> js ''end_turn'' | Some r \<Rightarrow> r)"

text \<open>
  \<open>sendMessage\<close> and \<open>handleToolUse\<close> call each other; each call of \<open>sendMessage\<close>
  takes the next turn of the script. When the script has no turn left the model does not
  answer and the call does not return: the result is \<open>None\<close>.
\<close>

fun sendMessage :: "env \<Rightarrow> turn list \<Rightarrow> jsstring \<Rightarrow> World \<Rightarrow> World option"
  and handleToolUse :: "env \<Rightarrow> turn list \<Rightarrow> api_content list \<Rightarrow> World \<Rightarrow> World option" where
  "sendMessage e [] userMessage w = None"
| "sendMessage e (t # rest) userMessage w =
     (let w1 = store_addBlock e USER userMessage None w;
          w2 = push_message (UserMessage userMessage) w1;
          w3 = snd (handle_events e (events t) w2)
      in case final t of
           Failed msg code \<Rightarrow> Some (onError msg code (store_addBlock e ERROR msg None w3))
         | Resolved finalMessage \<Rightarrow>
             (let w4 = store_updateTokenUsage e (input_tokens finalMessage)
                         (output_tokens finalMessage) w3;
                  w5 = onMessageStop (msg_id finalMessage)
                         (stop_reason_or_end_turn finalMessage)
                         (input_tokens finalMessage) (output_tokens finalMessage) w4;
                  w6 = push_message (AssistantMessage (msg_content finalMessage)) w5
              in if stop_reason finalMessage = Some (js ''tool_use'')
                 then handleToolUse e rest (msg_content finalMessage) w6
                 else Some w6))"
| "handleToolUse e script toolUses w =
     (case run_tools e toolUses w of
        (toolResults, w1) \<Rightarrow>
          sendMessage e script [] (push_message (ToolResults toolResults) w1))"

declare sendMessage.simps [simp del] handleToolUse.simps [simp del]

fun draw_tools ::
  "env \<Rightarrow> ToolDefinition list \<Rightarrow> nat \<Rightarrow> (ToolDefinition \<times> jsstring \<times> jsstring \<times> jsstring) list" where
  \<comment> \<open>Each tool with its text and with the identifier and the time of its block.\<close>
  "draw_tools e [] n = []"
| "draw_tools e (tool # rest) n =
     (tool, stringify e tool, uuidv4 e n, clock e n) # draw_tools e rest (Suc n)"

definition initialize :: "env \<Rightarrow> World \<Rightarrow> exn option \<times> World" where
  \<comment> \<open>\<open>initialize()\<close> without arguments: the prompt and the tools of the client go to the
      store. When the store throws on the prompt the tools are not set and the exception
      goes on to the caller.\<close>
  "initialize e w =
     (case draw e w of
        ((uuid, now), w1) \<Rightarrow>
          (case in_store (setSystemPrompt (client_systemPrompt w1) uuid now) w1 of
             (Inl x, w2) \<Rightarrow> (Some x, w2)
           | (Inr a, w2) \<Rightarrow>
               (let ts = draw_tools e (client_tools w2) (Suc (draws w2));
                    w3 = w2\<lparr>draws := Suc (draws w2) + length ts\<rparr>
                in (None, snd (in_store (setTools ts (clock e (draws w2))) w3)))))"

definition client_setSystemPrompt :: "env \<Rightarrow> jsvalue \<Rightarrow> World \<Rightarrow> exn option \<times> World" where
  \<comment> \<open>\<open>ClaudeClient.setSystemPrompt\<close>.\<close>
  "client_setSystemPrompt e prompt w =
     (case draw e (w\<lparr>client_systemPrompt := prompt\<rparr>) of
        ((uuid, now), w1) \<Rightarrow> initialize e (w1\<lparr>store := clear uuid now (store w1)\<rparr>))"

subsection \<open>The chat route\<close>

text \<open>
  The body of a request. The route checks the type of the message only, so a message
  that is missing or not a string is \<open>None\<close>; the system prompt is taken as it comes,
  \<open>None\<close> when the field is missing or holds a falsy value that is not a string.
\<close>

record ChatRequest =
  message :: "jsstring option"
  req_systemPrompt :: "jsvalue option"

definition truthy_value :: "jsvalue option \<Rightarrow> jsvalue option" where
  \<comment> \<open>\<open>if (systemPrompt)\<close>: the empty string is falsy.\<close>
  "truthy_value x = (case x of
                       None \<Rightarrow> None
                     | Some (StringValue v) \<Rightarrow> if v = [] then None else Some (StringValue v)
                     | Some OtherValue \<Rightarrow> Some OtherValue)"

text \<open>
  What a request comes to: a JSON body with a status; an exception thrown by the handler
  before it has written anything to the response, with the state that it leaves; or an
  event stream, with the state when the handler returns, \<open>None\<close> when it does not
  return. The call of \<open>setSystemPrompt\<close> is before the \<open>try\<close> of the handler.
\<close>

datatype reply = Json nat jsstring | Throws exn World | Stream "World option"

definition post_chat :: "env \<Rightarrow> turn list \<Rightarrow> ChatRequest \<Rightarrow> World \<Rightarrow> reply" where
  \<comment> \<open>\<open>router.post('/')\<close>.\<close>
  "post_chat e script req w =
     (case truthy (message req) of
        None \<Rightarrow> Json 400 (js ''Message is required'')
      | Some m \<Rightarrow>
          if client_apiMode w = unconfigured
          then Json 500 (js ''ANTHROPIC_API_KEY not configured'')
          else (let r = (case truthy_value (req_systemPrompt req) of
                           None \<Rightarrow> (None, w)
                         | Some p \<Rightarrow> client_setSystemPrompt e p w);
                    w1 = snd r
                in case fst r of
                     Some x \<Rightarrow> Throws x w1
                   | None \<Rightarrow>
                       (let w2 = w1\<lparr>res := createSSEHandler new_response\<rparr>;
                            w3 = send connected_sse ConnectedData w2
                        in Stream (sendMessage e script m w3))))"


section \<open>Delta channel: results\<close>

definition quiet :: "World \<Rightarrow> World \<Rightarrow> bool" where
  \<comment> \<open>From the first state to the second the response has not been ended and only
      frames have been written.\<close>
  "quiet w w' =
     (writableEnded (res w') = writableEnded (res w)
      \<and> (\<exists>fs. sent (res w') = sent (res w) @ fs \<and> End \<notin> set fs))"

lemma quiet_refl [simp]: "quiet w w"
  by (simp add: quiet_def)

lemma quiet_trans: "quiet w w' \<Longrightarrow> quiet w' w'' \<Longrightarrow> quiet w w''"
  by (auto simp: quiet_def)

lemma quiet_res: "res w' = res w \<Longrightarrow> quiet w w'"
  by (simp add: quiet_def)

lemma quiet_send: "quiet w (send t d w)"
  by (simp add: quiet_def send_def sse_send_def sendSSE_def)

lemma quiet_send_after: "res w1 = res w \<Longrightarrow> quiet w (send t d w1)"
  by (simp add: quiet_def send_def sse_send_def sendSSE_def)

lemma res_in_store [simp]: "res (snd (in_store f w)) = res w"
  by (simp add: in_store_def split_beta)

lemma res_draw [simp]: "res (snd (draw e w)) = res w"
  by (simp add: draw_def)

lemma res_store_addBlock [simp]: "res (store_addBlock e type text meta w) = res w"
  by (simp add: store_addBlock_def draw_def in_store_def split_beta)

lemma res_store_updateTokenUsage [simp]:
  "res (store_updateTokenUsage e i j w) = res w"
  by (simp add: store_updateTokenUsage_def draw_def)

lemma res_push_message [simp]: "res (push_message p w) = res w"
  by (simp add: push_message_def)

lemma quiet_handle_event: "quiet w (snd (handle_event e ev (ts, w)))"
proof (cases ev)
  case (MessageEvent mid model)
  then show ?thesis by (simp add: onMessageStart_def quiet_send)
next
  case (ContentBlockStart idx cb)
  then show ?thesis
    by (auto simp: Let_def split_beta draw_def in_store_def onContentBlockStart_def
        intro!: quiet_send_after split: content_block_start.splits)
next
  case (ContentBlockDelta idx d)
  then show ?thesis
    by (auto simp: Let_def split_beta draw_def in_store_def onContentBlockDelta_def
        intro!: quiet_send_after split: option.splits)
next
  case (ContentBlockStop idx)
  then show ?thesis
    by (auto simp: Let_def split_beta draw_def in_store_def onContentBlockStop_def
        intro!: quiet_send_after split: option.splits)
next
  case OtherEvent
  then show ?thesis by simp
qed

lemma quiet_foldl_events:
  "quiet w (snd (foldl (\<lambda>st ev. handle_event e ev st) (ts, w) evs))"
proof (induction evs arbitrary: ts w)
  case Nil
  then show ?case by simp
next
  case (Cons ev evs)
  obtain ts1 w1 where h: "handle_event e ev (ts, w) = (ts1, w1)"
    by (cases "handle_event e ev (ts, w)")
  then have "quiet w w1" using quiet_handle_event [of w e ev ts] by simp
  moreover have "quiet w1 (snd (foldl (\<lambda>st ev. handle_event e ev st) (ts1, w1) evs))"
    by (rule Cons.IH)
  ultimately show ?case by (simp add: h quiet_trans)
qed

lemma quiet_handle_events: "quiet w (snd (handle_events e evs w))"
  by (simp add: handle_events_def quiet_foldl_events)

lemma quiet_run_tools: "quiet w (snd (run_tools e toolUses w))"
proof (induction e toolUses w rule: run_tools.induct)
  case (1 e w)
  then show ?case by simp
next
  case (2 e rest w)
  then show ?case by simp
next
  case (3 e tid name inp rest w)
  let ?result = "executeTool e (draws w) name inp"
  let ?w1 = "store_addBlock e TOOL_RESULT ?result
               (Some [ToolName \<mapsto> Str name, ToolId \<mapsto> Str tid]) w"
  let ?w2 = "onToolResult tid name ?result ?w1"
  have "quiet w ?w1" by (rule quiet_res) simp
  moreover have "quiet ?w1 ?w2" by (simp add: onToolResult_def quiet_send)
  moreover have "quiet ?w2 (snd (run_tools e rest ?w2))" by (rule "3.IH") simp_all
  ultimately have "quiet w (snd (run_tools e rest ?w2))" by (blast intro: quiet_trans)
  then show ?case by (simp add: Let_def split_beta)
qed


lemma tool_use_not_end_turn [simp]:
  "js ''tool_use'' \<noteq> []" "js ''end_turn'' \<noteq> js ''tool_use''"
  by (simp_all add: js_def)

lemma stop_reason_tool_use:
  "stop_reason m = Some (js ''tool_use'') \<Longrightarrow> stop_reason_or_end_turn m = js ''tool_use''"
  by (simp add: stop_reason_or_end_turn_def truthy_def)

lemma stop_reason_other:
  "stop_reason m \<noteq> Some (js ''tool_use'') \<Longrightarrow> stop_reason_or_end_turn m \<noteq> js ''tool_use''"
  by (auto simp: stop_reason_or_end_turn_def truthy_def split: option.splits)

lemma onMessageStop_open:
  assumes "\<not> writableEnded (res w)"
  shows "sent (res (onMessageStop mid r i j w))
           = sent (res w) @ Frame message_stop (MessageStopData mid r i j)
               # (if r \<noteq> js ''tool_use'' then [End] else [])"
    and "writableEnded (res (onMessageStop mid r i j w)) = (r \<noteq> js ''tool_use'')"
  using assms
  by (simp_all add: onMessageStop_def Let_def send_def close_def sse_send_def sendSSE_def
      sse_close_def closeSSE_def)

text \<open>One turn of the model on an open channel, up to the call of \<open>handleToolUse\<close>.\<close>

lemma turn_resolved:
  assumes f: "final t = Resolved m" and op: "\<not> writableEnded (res w)"
  shows "\<exists>w6 fs.
      sendMessage e (t # rest) u w
        = (if stop_reason m = Some (js ''tool_use'')
           then handleToolUse e rest (msg_content m) w6 else Some w6)
      \<and> sent (res w6)
          = sent (res w) @ fs
            @ Frame message_stop (MessageStopData (msg_id m) (stop_reason_or_end_turn m)
                (input_tokens m) (output_tokens m))
              # (if stop_reason_or_end_turn m \<noteq> js ''tool_use'' then [End] else [])
      \<and> End \<notin> set fs
      \<and> writableEnded (res w6) = (stop_reason_or_end_turn m \<noteq> js ''tool_use'')"
proof -
  let ?w2 = "push_message (UserMessage u) (store_addBlock e USER u None w)"
  let ?w3 = "snd (handle_events e (events t) ?w2)"
  let ?w4 = "store_updateTokenUsage e (input_tokens m) (output_tokens m) ?w3"
  let ?w5 = "onMessageStop (msg_id m) (stop_reason_or_end_turn m)
               (input_tokens m) (output_tokens m) ?w4"
  let ?w6 = "push_message (AssistantMessage (msg_content m)) ?w5"
  have "quiet w ?w2" by (rule quiet_res) simp
  moreover have "quiet ?w2 ?w3" by (rule quiet_handle_events)
  ultimately have "quiet w ?w3" by (rule quiet_trans)
  then obtain fs where fs: "sent (res ?w3) = sent (res w) @ fs" "End \<notin> set fs"
    and op3: "\<not> writableEnded (res ?w3)"
    using op by (auto simp: quiet_def)
  from op3 have op4: "\<not> writableEnded (res ?w4)" by simp
  have "sendMessage e (t # rest) u w
        = (if stop_reason m = Some (js ''tool_use'')
           then handleToolUse e rest (msg_content m) ?w6 else Some ?w6)"
    by (simp add: sendMessage.simps f Let_def)
  moreover have "sent (res ?w6)
          = sent (res w) @ fs
            @ Frame message_stop (MessageStopData (msg_id m) (stop_reason_or_end_turn m)
                (input_tokens m) (output_tokens m))
              # (if stop_reason_or_end_turn m \<noteq> js ''tool_use'' then [End] else [])"
    using onMessageStop_open(1) [OF op4] fs(1) by simp
  moreover have "writableEnded (res ?w6) = (stop_reason_or_end_turn m \<noteq> js ''tool_use'')"
    using onMessageStop_open(2) [OF op4] by simp
  ultimately show ?thesis using fs(2) by blast
qed

lemma handleToolUse_quiet:
  "\<exists>w1. handleToolUse e script toolUses w = sendMessage e script [] w1 \<and> quiet w w1"
proof -
  let ?w1 = "push_message (ToolResults (fst (run_tools e toolUses w)))
               (snd (run_tools e toolUses w))"
  have "handleToolUse e script toolUses w = sendMessage e script [] ?w1"
    by (simp add: handleToolUse.simps split_beta)
  moreover have "quiet w ?w1"
    using quiet_run_tools [of w e toolUses] by (simp add: quiet_def)
  ultimately show ?thesis by blast
qed

lemma fst_client_setSystemPrompt:
  "fst (client_setSystemPrompt e p w)
     = (case p of StringValue content \<Rightarrow> None | OtherValue \<Rightarrow> Some TypeError)"
  by (simp add: client_setSystemPrompt_def initialize_def draw_def in_store_def
      setSystemPrompt_def Let_def split_beta split: jsvalue.splits)

lemma truthy_value_cases:
  "truthy_value x = None \<or> truthy_value x = Some OtherValue
   \<or> (\<exists>v. truthy_value x = Some (StringValue v))"
  by (simp add: truthy_value_def split: option.splits jsvalue.splits)





lemma post_chat_stream:
  assumes "truthy (message req) = Some m" and "client_apiMode w \<noteq> unconfigured"
    and "truthy_value (req_systemPrompt req) \<noteq> Some OtherValue"
  shows "post_chat e script req w
           = Stream (sendMessage e script m
               (send connected_sse ConnectedData
                  ((case truthy_value (req_systemPrompt req) of
                      None \<Rightarrow> w
                    | Some p \<Rightarrow> snd (client_setSystemPrompt e p w))
                   \<lparr>res := createSSEHandler new_response\<rparr>)))"
  using assms truthy_value_cases [of "req_systemPrompt req"]
  by (auto simp: post_chat_def Let_def split_beta fst_client_setSystemPrompt
      split: option.splits)

text \<open>
  C3. A request that is served as an event stream (its message is a string that is not
  empty, the client is configured, and its system prompt, if it has one, is a string),
  whose first turn stops with \<open>tool_use\<close> and whose continuation stops with another
  reason (\<open>end_turn\<close>, say): the response is ended exactly once, right after the
  \<open>message_stop\<close> frame of the second turn, and nothing ends it before, in particular
  not the \<open>message_stop\<close> frame of the first turn.
\<close>

theorem tool_use_exchange_closes_once:
  assumes "truthy (message req) = Some m" and "client_apiMode w \<noteq> unconfigured"
    and "truthy_value (req_systemPrompt req) \<noteq> Some OtherValue"
    and "final t1 = Resolved m1" and "stop_reason m1 = Some (js ''tool_use'')"
    and "final t2 = Resolved m2" and "stop_reason m2 \<noteq> Some (js ''tool_use'')"
  shows "\<exists>w' pre mid.
      post_chat e (t1 # t2 # rest) req w = Stream (Some w')
      \<and> sent (res w')
          = pre @ Frame message_stop (MessageStopData (msg_id m1) (js ''tool_use'')
                    (input_tokens m1) (output_tokens m1))
            # mid @ [Frame message_stop (MessageStopData (msg_id m2)
                       (stop_reason_or_end_turn m2) (input_tokens m2) (output_tokens m2)),
                     End]
      \<and> End \<notin> set pre \<and> End \<notin> set mid"
proof -
  let ?w1 = "case truthy_value (req_systemPrompt req) of None \<Rightarrow> w
             | Some p \<Rightarrow> snd (client_setSystemPrompt e p w)"
  let ?w3 = "send connected_sse ConnectedData (?w1\<lparr>res := createSSEHandler new_response\<rparr>)"
  have post: "post_chat e (t1 # t2 # rest) req w = Stream (sendMessage e (t1 # t2 # rest) m ?w3)"
    using assms(1,2,3) by (rule post_chat_stream)
  have s3: "sent (res ?w3) = [Headers, Frame connected_sse ConnectedData]"
    and op3: "\<not> writableEnded (res ?w3)"
    by (simp_all add: send_def sse_send_def sendSSE_def createSSEHandler_def initSSE_def
        new_response_def)
  note r1 = stop_reason_tool_use [OF assms(5)]
  from turn_resolved [OF assms(4) op3, of e "t2 # rest" m] assms(5) r1
  obtain w6 fs where a: "sendMessage e (t1 # t2 # rest) m ?w3
                          = handleToolUse e (t2 # rest) (msg_content m1) w6"
    and b: "sent (res w6) = sent (res ?w3) @ fs
              @ [Frame message_stop (MessageStopData (msg_id m1) (js ''tool_use'')
                   (input_tokens m1) (output_tokens m1))]"
    and c: "End \<notin> set fs" and d: "\<not> writableEnded (res w6)"
    by auto
  from handleToolUse_quiet [of e "t2 # rest" "msg_content m1" w6]
  obtain w7 where e7: "handleToolUse e (t2 # rest) (msg_content m1) w6
                         = sendMessage e (t2 # rest) [] w7"
    and q: "quiet w6 w7" by blast
  from q d obtain gs where g: "sent (res w7) = sent (res w6) @ gs" "End \<notin> set gs"
    and op7: "\<not> writableEnded (res w7)"
    by (auto simp: quiet_def)
  note r2 = stop_reason_other [OF assms(7)]
  from turn_resolved [OF assms(6) op7, of e rest "[]"] assms(7) r2
  obtain w' hs where a': "sendMessage e (t2 # rest) [] w7 = Some w'"
    and b': "sent (res w') = sent (res w7) @ hs
              @ [Frame message_stop (MessageStopData (msg_id m2) (stop_reason_or_end_turn m2)
                   (input_tokens m2) (output_tokens m2)), End]"
    and c': "End \<notin> set hs"
    by auto
  let ?pre = "[Headers, Frame connected_sse ConnectedData] @ fs"
  let ?mid = "gs @ hs"
  have "post_chat e (t1 # t2 # rest) req w = Stream (Some w')"
    by (simp add: post a e7 a')
  moreover have "sent (res w')
          = ?pre @ Frame message_stop (MessageStopData (msg_id m1) (js ''tool_use'')
                    (input_tokens m1) (output_tokens m1))
            # ?mid @ [Frame message_stop (MessageStopData (msg_id m2)
                       (stop_reason_or_end_turn m2) (input_tokens m2) (output_tokens m2)),
                     End]"
    by (simp add: b' g(1) b s3)
  moreover have "End \<notin> set ?pre" "End \<notin> set ?mid"
    using c g(2) c' by simp_all
  ultimately show ?thesis by blast
qed


definition env0 :: env where
  "env0 = \<lparr>uuidv4 = (\<lambda>n. replicate (Suc n) 0x75),
           clock = (\<lambda>n. replicate (Suc n) 0x74),
           executeTool = (\<lambda>n name inp. name @ inp),
           stringify = tool_name\<rparr>"

definition world_streaming :: World where
  \<comment> \<open>A configured client whose store holds one block that is still streaming.\<close>
  "world_streaming =
     \<lparr>store = one_streaming_block, client_messages = [],
      client_systemPrompt = StringValue (js ''sys''),
      client_tools = [], client_apiMode = direct, res = new_response, draws = 0\<rparr>"

definition say_hi :: ChatRequest where
  "say_hi = \<lparr>message = Some (js ''hi''), req_systemPrompt = None\<rparr>"

definition turn_tool_use :: turn where
  "turn_tool_use =
     \<lparr>events = [ContentBlockStart 0 (ToolUseStart (js ''Read'') (js ''tu1'')),
                ContentBlockDelta 0 (InputJsonDelta (js ''{}'')),
                ContentBlockStop 0],
      final = Resolved \<lparr>msg_id = js ''m1'',
                        msg_content = [ToolUseBlock (js ''tu1'') (js ''Read'') (js ''{}'')],
                        stop_reason = Some (js ''tool_use''),
                        input_tokens = 3, output_tokens = 5\<rparr>\<rparr>"

definition turn_end_turn :: turn where
  "turn_end_turn =
     \<lparr>events = [ContentBlockStart 0 OtherStart, ContentBlockDelta 0 (TextDelta (js ''ok'')),
                ContentBlockStop 0],
      final = Resolved \<lparr>msg_id = js ''m2'', msg_content = [OtherBlock],
                        stop_reason = Some (js ''end_turn''),
                        input_tokens = 2, output_tokens = 1\<rparr>\<rparr>"

theorem tool_use_exchange_closes_once_witness:
  "truthy (message say_hi) = Some (js ''hi'') \<and> client_apiMode world_streaming = direct
   \<and> truthy_value (req_systemPrompt say_hi) = None
   \<and> stop_reason_or_end_turn \<lparr>msg_id = js ''m2'', msg_content = [OtherBlock],
                        stop_reason = Some (js ''end_turn''),
                        input_tokens = 2, output_tokens = 1\<rparr> = js ''end_turn''
   \<and> (\<exists>w' pre mid.
         post_chat env0 [turn_tool_use, turn_end_turn] say_hi world_streaming = Stream (Some w')
         \<and> sent (res w')
             = pre @ Frame message_stop (MessageStopData (js ''m1'') (js ''tool_use'') 3 5)
               # mid @ [Frame message_stop (MessageStopData (js ''m2'') (js ''end_turn'') 2 1),
                        End]
         \<and> End \<notin> set pre \<and> End \<notin> set mid)"
proof -
  have 1: "truthy (message say_hi) = Some (js ''hi'')"
    by (simp add: say_hi_def truthy_def js_def)
  have 2: "client_apiMode world_streaming \<noteq> unconfigured"
    and cfg: "client_apiMode world_streaming = direct"
    by (simp_all add: world_streaming_def)
  have p: "truthy_value (req_systemPrompt say_hi) = None"
    by (simp add: say_hi_def truthy_value_def)
  then have np: "truthy_value (req_systemPrompt say_hi) \<noteq> Some OtherValue" by simp
  have 3: "final turn_tool_use
             = Resolved \<lparr>msg_id = js ''m1'',
                        msg_content = [ToolUseBlock (js ''tu1'') (js ''Read'') (js ''{}'')],
                        stop_reason = Some (js ''tool_use''),
                        input_tokens = 3, output_tokens = 5\<rparr>"
    by (simp add: turn_tool_use_def)
  have 4: "final turn_end_turn
             = Resolved \<lparr>msg_id = js ''m2'', msg_content = [OtherBlock],
                        stop_reason = Some (js ''end_turn''),
                        input_tokens = 2, output_tokens = 1\<rparr>"
    by (simp add: turn_end_turn_def)
  have 5: "stop_reason_or_end_turn \<lparr>msg_id = js ''m2'', msg_content = [OtherBlock],
                        stop_reason = Some (js ''end_turn''),
                        input_tokens = 2, output_tokens = 1\<rparr> = js ''end_turn''"
    by (simp add: stop_reason_or_end_turn_def truthy_def js_def)
  from tool_use_exchange_closes_once [OF 1 2 np 3 _ 4, of env0 "[]"] 1 cfg p 5
  show ?thesis by simp
qed

subsection \<open>A send while a block is streaming\<close>

definition grows :: "World \<Rightarrow> World \<Rightarrow> bool" where
  "grows w w' = step_ok False (store w) (store w')"

lemma grows_refl [simp]: "grows w w"
  by (simp add: grows_def)





lemma store_send [simp]: "store (send t d w) = store w"
  by (simp add: send_def)

lemma store_close [simp]: "store (close w) = store w"
  by (simp add: close_def)












end
